theory Spec2Isabelle
  imports Main
begin

section \<open>The operating system as the rotating log writer sees it\<close>

text \<open>
  The package \<^verbatim>\<open>log\<close> (files \<^verbatim>\<open>log/file_rotate.go\<close> and \<^verbatim>\<open>log/log.go\<close>) writes to
  a file through \<^verbatim>\<open>os\<close>, \<^verbatim>\<open>io/ioutil\<close>, \<^verbatim>\<open>path/filepath\<close> and \<^verbatim>\<open>time\<close>. The model
  below is sequential: the two mutexes (\<^verbatim>\<open>startLock\<close> and the one embedded in
  \<^verbatim>\<open>MuxWriter\<close>) only serialise callers and are left out; the retention sweep, which the
  code starts with \<^verbatim>\<open>go\<close>, is a separate operation that the rotation only launches.

  Go's \<^verbatim>\<open>int\<close> is taken to be the 64-bit one. The counters are modelled as unbounded
  integers (they are bounded by the file size and by the number of calls); the one product
  of a caller-chosen value, in the retention cut-off, is wrapped as the machine does.
\<close>

type_synonym path = string
type_synonym ino = nat

text \<open>Error values. The first five are the operating system's and the standard
  library's; the others are the ones this package builds.\<close>

datatype error =
    ErrNotExist
  | ErrInvalid
  | ErrClosed
  | OsError string
  | SkipDir
  | ConfigNoFilename
  | GetStat error
  | NoFreeLogNumber path
  | RotateError error
  | UnableToDelete path

text \<open>A call either panics with a value or returns.\<close>

datatype 'a res = Panics error | Returns 'a

record inode =
  content :: string
  modTime :: int

text \<open>An \<^verbatim>\<open>*os.File\<close>: the file it was opened on and whether it has been closed. The
  file stays the same one when its name changes.\<close>

record osfile =
  file_ino :: ino
  closed :: bool

text \<open>
  The world: the name table and the files, the clock as one call sees it (seconds since
  the epoch, day of the month, and the date as \<^verbatim>\<open>Format("2006-01-02")\<close> prints it; the
  clock does not move during one call), the system calls that are going to fail, what
  has been printed, and how many sweeps have been launched.
\<close>

record world =
  names :: "path \<rightharpoonup> ino"
  inodes :: "ino \<Rightarrow> inode"
  next_ino :: ino
  now_unix :: int
  now_day :: int
  now_date :: string
  open_fault :: "path \<Rightarrow> error option"
  stat_fault :: "ino \<Rightarrow> error option"
  read_fault :: "path \<Rightarrow> error option"
  write_fault :: "ino \<Rightarrow> (nat \<times> error) option"
  rename_fault :: "path \<Rightarrow> path \<Rightarrow> error option"
  Debug :: bool
  stdout :: "string list"
  stderr :: "(path \<times> error) list"
  sweeps :: nat

text \<open>\<^verbatim>\<open>os.Lstat\<close>: an error exactly when nothing has the name.\<close>

definition os_Lstat :: "path \<Rightarrow> world \<Rightarrow> error + ino" where
  "os_Lstat p s = (case names s p of None \<Rightarrow> Inl ErrNotExist | Some i \<Rightarrow> Inr i)"

text \<open>\<^verbatim>\<open>os.MkdirAll\<close>: directories are not in the name table (a missing or unwritable
  parent shows as a fault of the open), and the code drops the call's result.\<close>

definition os_MkdirAll :: "path \<Rightarrow> world \<Rightarrow> world" where
  "os_MkdirAll p s = s"

text \<open>\<^verbatim>\<open>os.OpenFile(p, O_WRONLY|O_APPEND|O_CREATE, 0644)\<close>: opens the file of that name,
  creating an empty one when there is none.\<close>

definition os_OpenFile :: "path \<Rightarrow> world \<Rightarrow> (error + osfile) \<times> world" where
  "os_OpenFile p s =
     (case open_fault s p of
        Some e \<Rightarrow> (Inl e, s)
      | None \<Rightarrow>
          (case names s p of
             Some i \<Rightarrow> (Inr \<lparr>file_ino = i, closed = False\<rparr>, s)
           | None \<Rightarrow>
               (Inr \<lparr>file_ino = next_ino s, closed = False\<rparr>,
                s\<lparr>names := (names s)(p \<mapsto> next_ino s),
                  inodes := (inodes s)(next_ino s := \<lparr>content = [], modTime = now_unix s\<rparr>),
                  next_ino := Suc (next_ino s)\<rparr>)))"

text \<open>\<^verbatim>\<open>(*os.File).Stat\<close>, of which the code reads only \<^verbatim>\<open>Size()\<close>. The methods of a
  nil \<^verbatim>\<open>*os.File\<close> return \<^verbatim>\<open>ErrInvalid\<close>.\<close>

definition File_Stat :: "osfile option \<Rightarrow> world \<Rightarrow> error + int" where
  "File_Stat fd s =
     (case fd of
        None \<Rightarrow> Inl ErrInvalid
      | Some f \<Rightarrow>
          if closed f then Inl ErrClosed
          else (case stat_fault s (file_ino f) of
                  Some e \<Rightarrow> Inl e
                | None \<Rightarrow> Inr (int (length (content (inodes s (file_ino f)))))))"

text \<open>\<^verbatim>\<open>(*os.File).Write\<close> on a file opened for appending: all of \<open>b\<close> goes to the end
  of the file, or, when the write fails, the first \<open>k\<close> bytes of it do and the error is
  returned with the number of bytes written.\<close>

definition File_Write :: "osfile option \<Rightarrow> string \<Rightarrow> world \<Rightarrow> (int \<times> error option) \<times> world" where
  "File_Write fd b s =
     (case fd of
        None \<Rightarrow> ((0, Some ErrInvalid), s)
      | Some f \<Rightarrow>
          if closed f then ((0, Some ErrClosed), s)
          else
            (let i = file_ino f; old = inodes s i in
             case write_fault s i of
               None \<Rightarrow>
                 ((int (length b), None),
                  s\<lparr>inodes := (inodes s)(i := old\<lparr>content := content old @ b, modTime := now_unix s\<rparr>)\<rparr>)
             | Some (k, e) \<Rightarrow>
                 ((int (length (take k b)), Some e),
                  s\<lparr>inodes := (inodes s)(i := old\<lparr>content := content old @ take k b,
                                                    modTime := now_unix s\<rparr>)\<rparr>)))"

text \<open>\<^verbatim>\<open>(*os.File).Close\<close>; the code never looks at its error.\<close>

definition File_Close :: "osfile option \<Rightarrow> osfile option" where
  "File_Close fd = map_option (\<lambda>f. f\<lparr>closed := True\<rparr>) fd"

text \<open>\<^verbatim>\<open>ioutil.ReadFile\<close>: by name, not through the open file.\<close>

definition ioutil_ReadFile :: "path \<Rightarrow> world \<Rightarrow> error + string" where
  "ioutil_ReadFile p s =
     (case read_fault s p of
        Some e \<Rightarrow> Inl e
      | None \<Rightarrow>
          (case names s p of
             None \<Rightarrow> Inl ErrNotExist
           | Some i \<Rightarrow> Inr (content (inodes s i))))"

text \<open>\<^verbatim>\<open>os.Rename\<close>: the file takes the new name and gives up the old one.\<close>

definition os_Rename :: "path \<Rightarrow> path \<Rightarrow> world \<Rightarrow> error + world" where
  "os_Rename old new s =
     (case rename_fault s old new of
        Some e \<Rightarrow> Inl e
      | None \<Rightarrow>
          (case names s old of
             None \<Rightarrow> Inl ErrNotExist
           | Some i \<Rightarrow>
               if old = new then Inr s
               else Inr (s\<lparr>names := (names s)(old := None, new \<mapsto> i)\<rparr>)))"

subsection \<open>Strings and formatting\<close>

text \<open>\<^verbatim>\<open>strings.Split(s, "\n")\<close>, the only separator the code splits at: the pieces
  between the separators, one more than there are separators.\<close>

fun split_at :: "char \<Rightarrow> string \<Rightarrow> string \<Rightarrow> string list" where
  "split_at c acc [] = [rev acc]"
| "split_at c acc (x # xs) =
     (if x = c then rev acc # split_at c [] xs else split_at c (x # acc) xs)"

definition strings_Split :: "string \<Rightarrow> char \<Rightarrow> string list" where
  "strings_Split s c = split_at c [] s"

definition strings_HasPrefix :: "string \<Rightarrow> string \<Rightarrow> bool" where
  "strings_HasPrefix s p = (length p \<le> length s \<and> take (length p) s = p)"

text \<open>\<^verbatim>\<open>%03d\<close> of a number that is not negative: its decimal digits, padded with
  zeros on the left to three characters.\<close>

definition digit_char :: "nat \<Rightarrow> char" where
  "digit_char d = char_of (48 + d)"

function decimal :: "nat \<Rightarrow> string" where
  "decimal n = (if n < 10 then [digit_char n] else decimal (n div 10) @ [digit_char (n mod 10)])"
  by pat_completeness auto
termination
  by (relation "measure id") auto

declare decimal.simps [simp del]

definition Sprintf_03d :: "nat \<Rightarrow> string" where
  "Sprintf_03d n = replicate (3 - length (decimal n)) (CHR ''0'') @ decimal n"

text \<open>\<^verbatim>\<open>filepath.Base\<close> on a system whose separator is the slash: the last element
  of the path, after dropping the slashes at its end.\<close>

definition filepath_Base :: "path \<Rightarrow> string" where
  "filepath_Base p =
     (if p = [] then ''.''
      else
        (let q = rev (dropWhile (\<lambda>c. c = CHR ''/'') (rev p));
             b = rev (takeWhile (\<lambda>c. c \<noteq> CHR ''/'') (rev q))
         in if b = [] then ''/'' else b))"

text \<open>Go's \<^verbatim>\<open>int64(x)\<close> and the arithmetic of \<^verbatim>\<open>int\<close> and \<^verbatim>\<open>int64\<close>: the value
  modulo \<open>2 ^ 64\<close>, read as a signed number.\<close>

definition int64 :: "int \<Rightarrow> int" where
  "int64 x = (x + 2 ^ 63) mod 2 ^ 64 - 2 ^ 63"

section \<open>The handler\<close>

record MuxWriter =
  logFile :: "osfile option"

record RotateHandler =
  mw :: MuxWriter
  FilePath :: path
  MaxLines :: int
  curLines :: int
  MaxSize :: int
  curSize :: int
  MaxDays :: int
  openDate :: int
  Rotatable :: bool

definition MuxWriter_Write :: "MuxWriter \<Rightarrow> string \<Rightarrow> world \<Rightarrow> (int \<times> error option) \<times> world" where
  "MuxWriter_Write l b s = File_Write (logFile l) b s"

text \<open>\<^verbatim>\<open>SetLogFile\<close> closes the file it held; the closed \<^verbatim>\<open>*os.File\<close> is then
  unreachable, so closing it leaves no trace in the model.\<close>

definition SetLogFile :: "MuxWriter \<Rightarrow> osfile \<Rightarrow> MuxWriter" where
  "SetLogFile l fd = l\<lparr>logFile := Some fd\<rparr>"

definition NewDefaultHandler :: "path \<Rightarrow> RotateHandler" where
  "NewDefaultHandler fp =
     \<lparr>mw = \<lparr>logFile = None\<rparr>, FilePath = fp, MaxLines = 0, curLines = 0, MaxSize = 0,
      curSize = 0, MaxDays = 0, openDate = 0, Rotatable = False\<rparr>"

definition NewDailyRotateHandler :: "path \<Rightarrow> int \<Rightarrow> RotateHandler" where
  "NewDailyRotateHandler fp days =
     \<lparr>mw = \<lparr>logFile = None\<rparr>, FilePath = fp, MaxLines = 0, curLines = 0, MaxSize = 0,
      curSize = 0, MaxDays = days, openDate = 0, Rotatable = True\<rparr>"

definition NewLinesRotateHandler :: "path \<Rightarrow> int \<Rightarrow> RotateHandler" where
  "NewLinesRotateHandler fp lines =
     \<lparr>mw = \<lparr>logFile = None\<rparr>, FilePath = fp, MaxLines = lines, curLines = 0, MaxSize = 0,
      curSize = 0, MaxDays = 0, openDate = 0, Rotatable = True\<rparr>"

definition NewSizeRotateHandler :: "path \<Rightarrow> int \<Rightarrow> RotateHandler" where
  "NewSizeRotateHandler fp sz =
     \<lparr>mw = \<lparr>logFile = None\<rparr>, FilePath = fp, MaxLines = 0, curLines = 0, MaxSize = sz,
      curSize = 0, MaxDays = 0, openDate = 0, Rotatable = True\<rparr>"

definition createLogFile :: "RotateHandler \<Rightarrow> world \<Rightarrow> (error + osfile) \<times> world" where
  "createLogFile w s = os_OpenFile (FilePath w) (os_MkdirAll (FilePath w) s)"

text \<open>\<^verbatim>\<open>initLogFile\<close> sets the fields as it goes, so the handler comes back with the
  error.\<close>

definition initLogFile :: "RotateHandler \<Rightarrow> world \<Rightarrow> RotateHandler \<times> error option" where
  "initLogFile w s =
     (case File_Stat (logFile (mw w)) s of
        Inl err \<Rightarrow> (w, Some (GetStat err))
      | Inr sz \<Rightarrow>
          (let w1 = w\<lparr>curSize := sz, openDate := now_day s\<rparr> in
           if sz > 0 then
             (case ioutil_ReadFile (FilePath w) s of
                Inl err \<Rightarrow> (w1, Some err)
              | Inr cont \<Rightarrow>
                  (w1\<lparr>curLines := int (length (strings_Split cont (CHR 0x0A)))\<rparr>, None))
           else (w1\<lparr>curLines := 0\<rparr>, None)))"

definition Init :: "RotateHandler \<Rightarrow> world \<Rightarrow> (RotateHandler \<times> world) res" where
  "Init w s =
     (if length (FilePath w) = 0 then Panics ConfigNoFilename
      else
        (case createLogFile w s of
           (Inl err, s1) \<Rightarrow> Panics err
         | (Inr fd, s1) \<Rightarrow>
             (let w1 = w\<lparr>mw := SetLogFile (mw w) fd\<rparr> in
              case initLogFile w1 s1 of
                (w2, Some err) \<Rightarrow> Panics err
              | (w2, None) \<Rightarrow> Returns (w2, s1))))"

text \<open>The name tried for the number \<open>num\<close>.\<close>

definition rotated_name :: "path \<Rightarrow> string \<Rightarrow> nat \<Rightarrow> path" where
  "rotated_name fp date num = fp @ ''.'' @ date @ ''.'' @ Sprintf_03d num"

text \<open>The loop of \<^verbatim>\<open>DoRotate\<close>, from its state \<open>(num, fname, err == nil)\<close>.\<close>

function find_free :: "path \<Rightarrow> world \<Rightarrow> nat \<Rightarrow> path \<Rightarrow> bool \<Rightarrow> path \<times> bool" where
  "find_free fp s num fname err_nil =
     (if err_nil \<and> num \<le> 999 then
        find_free fp s (num + 1) (rotated_name fp (now_date s) num)
          (case os_Lstat (rotated_name fp (now_date s) num) s of Inl e \<Rightarrow> False | Inr i \<Rightarrow> True)
      else (fname, err_nil))"
  by pat_completeness auto
termination
  by (relation "measure (\<lambda>(fp, s, num, fname, err_nil). 1000 - num)") auto

declare find_free.simps [simp del]

definition DoRotate :: "RotateHandler \<Rightarrow> world \<Rightarrow> (RotateHandler \<times> world \<times> error option) res" where
  "DoRotate w s =
     (case os_Lstat (FilePath w) s of
        Inl err \<Rightarrow> Returns (w, s, None)
      | Inr i \<Rightarrow>
          (case find_free (FilePath w) s 1 [] True of
             (fname, True) \<Rightarrow> Returns (w, s, Some (NoFreeLogNumber (FilePath w)))
           | (fname, False) \<Rightarrow>
               (let w1 = w\<lparr>mw := (mw w)\<lparr>logFile := File_Close (logFile (mw w))\<rparr>\<rparr> in
                case os_Rename (FilePath w) fname s of
                  Inl err \<Rightarrow> Returns (w1, s, Some (RotateError err))
                | Inr s1 \<Rightarrow>
                    (case Init w1 s1 of
                       Panics e \<Rightarrow> Panics e
                     | Returns (w2, s2) \<Rightarrow>
                         Returns (w2, s2\<lparr>sweeps := Suc (sweeps s2)\<rparr>, None)))))"

text \<open>The condition of \<^verbatim>\<open>doCheckRotate\<close>.\<close>

definition rotate_due :: "RotateHandler \<Rightarrow> world \<Rightarrow> bool" where
  "rotate_due w s =
     (Rotatable w \<and>
      ((MaxLines w > 0 \<and> curLines w \<ge> MaxLines w) \<or>
       (MaxSize w > 0 \<and> curSize w \<ge> MaxSize w) \<or>
       (now_day s \<noteq> openDate w)))"

definition doCheckRotate :: "RotateHandler \<Rightarrow> int \<Rightarrow> world \<Rightarrow> (RotateHandler \<times> world) res" where
  "doCheckRotate w sz s =
     (if rotate_due w s then
        (case DoRotate w s of
           Panics e \<Rightarrow> Panics e
         | Returns (w1, s1, Some err) \<Rightarrow>
             Returns (w1, s1\<lparr>stderr := stderr s1 @ [(FilePath w1, err)]\<rparr>)
         | Returns (w1, s1, None) \<Rightarrow>
             Returns (w1\<lparr>curLines := curLines w1 + 1, curSize := curSize w1 + sz\<rparr>, s1))
      else Returns (w\<lparr>curLines := curLines w + 1, curSize := curSize w + sz\<rparr>, s))"

text \<open>\<^verbatim>\<open>Write\<close> returns the handler and the world as it leaves them, and its two
  results.\<close>

definition Write :: "RotateHandler \<Rightarrow> string \<Rightarrow> world \<Rightarrow> (RotateHandler \<times> world \<times> int \<times> error option) res" where
  "Write w data s =
     (let s0 = (if Debug s then s\<lparr>stdout := stdout s @ [data]\<rparr> else s);
          len = int (length data)
      in case doCheckRotate w len s0 of
           Panics e \<Rightarrow> Panics e
         | Returns (w1, s1) \<Rightarrow>
             (case MuxWriter_Write (mw w1) data s1 of
                ((n, err), s2) \<Rightarrow> Returns (w1, s2, len, err)))"

section \<open>The retention sweep\<close>

text \<open>
  The sweep runs on its own, some time after the rotation that launched it, so it has a
  world of its own: the clock (which does not move during one sweep), the removals that
  are going to fail, and the paths removed so far.
\<close>

record sweep_world =
  sw_now :: int
  remove_fault :: "path \<Rightarrow> error option"
  removed :: "path list"

definition os_Remove :: "path \<Rightarrow> sweep_world \<Rightarrow> error option \<times> sweep_world" where
  "os_Remove p e =
     (case remove_fault e p of
        Some err \<Rightarrow> (Some err, e)
      | None \<Rightarrow> (None, e\<lparr>removed := removed e @ [p]\<rparr>))"

text \<open>What \<^verbatim>\<open>os.FileInfo\<close> tells the sweep.\<close>

record FileInfo =
  IsDir :: bool
  ModTime :: int

text \<open>
  A directory as \<^verbatim>\<open>filepath.Walk\<close> finds it. An entry has its name, the result of
  \<^verbatim>\<open>Lstat\<close> on it (\<open>None\<close> when it fails: the entry was listed and is gone), and, for a
  directory, the error of reading it, if any, and its entries in the order in which they are
  read. The name of the root is the whole path the walk starts from.
\<close>

datatype tree = Tree string "FileInfo option" "error option" "tree list"

text \<open>\<^verbatim>\<open>filepath.Join\<close> of a cleaned directory path and the name of an entry.\<close>

definition filepath_Join :: "path \<Rightarrow> string \<Rightarrow> path" where
  "filepath_Join dir name =
     (if dir = [] \<or> dir = ''.'' then name
      else if last dir = CHR ''/'' then dir @ name
      else dir @ ''/'' @ name)"

type_synonym WalkFunc = "path \<Rightarrow> FileInfo option \<Rightarrow> error option \<Rightarrow> sweep_world \<Rightarrow> sweep_world \<times> error option"

text \<open>
  \<^verbatim>\<open>filepath.walk\<close> and its loop over the names of a directory, after the standard
  library: the function is called once for a directory, with the error of reading it, and
  the walk ends at the first error that is not \<^verbatim>\<open>SkipDir\<close>. (Older versions of the
  library call the function a second time when the directory cannot be read; a function
  that returns nil for every directory, as the one of \<^verbatim>\<open>deleteOldLog\<close> does, cannot tell
  the difference.)
\<close>

fun walk :: "WalkFunc \<Rightarrow> path \<Rightarrow> FileInfo \<Rightarrow> tree \<Rightarrow> sweep_world \<Rightarrow> sweep_world \<times> error option"
  and walk_names :: "WalkFunc \<Rightarrow> path \<Rightarrow> tree list \<Rightarrow> sweep_world \<Rightarrow> sweep_world \<times> error option"
where
  "walk walkFn p info (Tree n li rd cs) e =
     (if \<not> IsDir info then walkFn p (Some info) None e
      else
        (case walkFn p (Some info) rd e of
           (e1, err1) \<Rightarrow>
             if rd \<noteq> None \<or> err1 \<noteq> None then (e1, err1)
             else walk_names walkFn p cs e1))"
| "walk_names walkFn p [] e = (e, None)"
| "walk_names walkFn p (Tree n li rd ds # cs) e =
     (case li of
        None \<Rightarrow>
          (case walkFn (filepath_Join p n) None (Some ErrNotExist) e of
             (e1, err) \<Rightarrow>
               if err \<noteq> None \<and> err \<noteq> Some SkipDir then (e1, err)
               else walk_names walkFn p cs e1)
      | Some fileInfo \<Rightarrow>
          (case walk walkFn (filepath_Join p n) fileInfo (Tree n li rd ds) e of
             (e1, err) \<Rightarrow>
               if err \<noteq> None \<and> (\<not> IsDir fileInfo \<or> err \<noteq> Some SkipDir) then (e1, err)
               else walk_names walkFn p cs e1))"

definition filepath_Walk :: "tree \<Rightarrow> WalkFunc \<Rightarrow> sweep_world \<Rightarrow> sweep_world \<times> error option" where
  "filepath_Walk root fn e =
     (case root of
        Tree n li rd cs \<Rightarrow>
          (case (case li of
                   None \<Rightarrow> fn n None (Some ErrNotExist) e
                 | Some info \<Rightarrow> walk fn n info root e) of
             (e1, err) \<Rightarrow> if err = Some SkipDir then (e1, None) else (e1, err)))"

text \<open>
  The function \<^verbatim>\<open>deleteOldLog\<close> gives to the walk. When \<open>info\<close> is nil, \<^verbatim>\<open>info.IsDir()\<close>
  panics; the deferred function recovers and makes the panic the error the function
  returns.
\<close>

definition deleteOldLog_fn :: "RotateHandler \<Rightarrow> WalkFunc" where
  "deleteOldLog_fn w p info err e =
     (case info of
        None \<Rightarrow> (e, Some (UnableToDelete p))
      | Some fi \<Rightarrow>
          if \<not> IsDir fi \<and> ModTime fi < int64 (sw_now e - int64 (60 * 60 * 24 * MaxDays w)) then
            (if strings_HasPrefix (filepath_Base p) (filepath_Base (FilePath w))
             then (snd (os_Remove p e), None)
             else (e, None))
          else (e, None))"

text \<open>\<^verbatim>\<open>deleteOldLog\<close> walks \<^verbatim>\<open>filepath.Dir(w.FilePath)\<close>, here the tree \<open>dir\<close>, and drops
  what the walk returns.\<close>

definition deleteOldLog :: "RotateHandler \<Rightarrow> tree \<Rightarrow> sweep_world \<Rightarrow> sweep_world" where
  "deleteOldLog w dir e = fst (filepath_Walk dir (deleteOldLog_fn w) e)"

subsection \<open>What a sweep is due to remove\<close>

text \<open>
  The entries a walk of the tree can reach, each with its path and what \<^verbatim>\<open>Lstat\<close> says
  of it, in the order of the walk: an entry whose \<^verbatim>\<open>Lstat\<close> fails is not among them, and
  the entries of a directory that cannot be read are not either.
\<close>

fun entries :: "path \<Rightarrow> tree \<Rightarrow> (path \<times> FileInfo) list"
  and entries_list :: "path \<Rightarrow> tree list \<Rightarrow> (path \<times> FileInfo) list"
where
  "entries p (Tree n li rd cs) =
     (case li of
        None \<Rightarrow> []
      | Some fi \<Rightarrow> (p, fi) # (if IsDir fi \<and> rd = None then entries_list p cs else []))"
| "entries_list p [] = []"
| "entries_list p (Tree n li rd ds # cs) =
     entries (filepath_Join p n) (Tree n li rd ds) @ entries_list p cs"

text \<open>The same from the root, whose path is its name.\<close>

definition all_entries :: "tree \<Rightarrow> (path \<times> FileInfo) list" where
  "all_entries dir = (case dir of Tree n li rd cs \<Rightarrow> entries n dir)"

text \<open>No entry of the tree has gone between the listing of its directory and \<^verbatim>\<open>Lstat\<close>.\<close>

fun intact :: "tree \<Rightarrow> bool" where
  "intact (Tree n li rd cs) = (li \<noteq> None \<and> list_all intact cs)"

text \<open>What the sweep is to delete: an entry that is not a directory, whose base name
  starts with the base name of the live file, and that was last modified before the
  cut-off.\<close>

definition expired :: "RotateHandler \<Rightarrow> int \<Rightarrow> path \<times> FileInfo \<Rightarrow> bool" where
  "expired w cutoff x =
     (\<not> IsDir (snd x) \<and>
      strings_HasPrefix (filepath_Base (fst x)) (filepath_Base (FilePath w)) \<and>
      ModTime (snd x) < cutoff)"

text \<open>The cut-off as \<^verbatim>\<open>deleteOldLog\<close> computes it.\<close>

definition cutoff :: "RotateHandler \<Rightarrow> int \<Rightarrow> int" where
  "cutoff w now = int64 (now - int64 (60 * 60 * 24 * MaxDays w))"

text \<open>The values of an \<^verbatim>\<open>int64\<close>.\<close>

definition is_int64 :: "int \<Rightarrow> bool" where
  "is_int64 x = (- (2 ^ 63) \<le> x \<and> x < 2 ^ 63)"

text \<open>The world of a sweep in which no removal fails and nothing has been removed yet.\<close>

definition clean :: "int \<Rightarrow> sweep_world" where
  "clean now = \<lparr>sw_now = now, remove_fault = (\<lambda>p. None), removed = []\<rparr>"

text \<open>
  A run is framed when its error and the removals it asks for do not depend on which
  removals fail nor on what was removed before: it adds to the removed paths those of its
  requests that do not fail.
\<close>

definition framed :: "(sweep_world \<Rightarrow> sweep_world \<times> error option) \<Rightarrow> bool" where
  "framed run =
     (\<forall>now f r. run \<lparr>sw_now = now, remove_fault = f, removed = r\<rparr> =
        (\<lparr>sw_now = now, remove_fault = f,
           removed = r @ filter (\<lambda>q. f q = None) (removed (fst (run (clean now))))\<rparr>,
         snd (run (clean now))))"

text \<open>
  The result of a run has removed an initial part of the list \<open>xs\<close>, and all of it when
  the run returned no error; and the error is not \<^verbatim>\<open>SkipDir\<close>.
\<close>

definition initial_part :: "sweep_world \<times> error option \<Rightarrow> path list \<Rightarrow> bool" where
  "initial_part res xs =
     (snd res \<noteq> Some SkipDir \<and>
      (\<exists>rest. xs = removed (fst res) @ rest \<and> (snd res = None \<longrightarrow> rest = [])))"

section \<open>Sequences of calls\<close>

text \<open>The handlers that \<open>w0\<close> can become: \<^verbatim>\<open>Init\<close> and \<^verbatim>\<open>Write\<close> that return, in any
  order and in any worlds.\<close>

inductive reach :: "RotateHandler \<Rightarrow> RotateHandler \<Rightarrow> bool" for w0 :: RotateHandler where
  reach_new: "reach w0 w0"
| reach_Init: "reach w0 w \<Longrightarrow> Init w s = Returns (w', s') \<Longrightarrow> reach w0 w'"
| reach_Write: "reach w0 w \<Longrightarrow> Write w data s = Returns (w', s', n, err) \<Longrightarrow> reach w0 w'"

text \<open>The fields of a handler that no method assigns.\<close>

definition policy :: "RotateHandler \<Rightarrow> path \<times> int \<times> int \<times> int \<times> bool" where
  "policy w = (FilePath w, MaxLines w, MaxSize w, MaxDays w, Rotatable w)"

section \<open>Worlds and handlers for the examples\<close>

text \<open>An empty file system on 5 March 2024 in which no call fails.\<close>

definition quiet :: world where
  "quiet =
     \<lparr>names = Map.empty, inodes = (\<lambda>i. \<lparr>content = [], modTime = 0\<rparr>), next_ino = 0,
      now_unix = 1709640000, now_day = 5, now_date = ''2024-03-05'',
      open_fault = (\<lambda>p. None), stat_fault = (\<lambda>i. None), read_fault = (\<lambda>p. None),
      write_fault = (\<lambda>i. None), rename_fault = (\<lambda>p q. None),
      Debug = False, stdout = [], stderr = [], sweeps = 0\<rparr>"

text \<open>The live file \<^verbatim>\<open>app.log\<close> with four bytes in it, and one rotated file of the day.\<close>

definition busy :: world where
  "busy = quiet\<lparr>names := [''app.log'' \<mapsto> 0, ''app.log.2024-03-05.001'' \<mapsto> 1],
                inodes := (\<lambda>i. \<lparr>content = (if i = 0 then ''boot'' else []), modTime = 1709630000\<rparr>),
                next_ino := 2\<rparr>"

text \<open>The same, with the 999 rotated names of the day all taken.\<close>

definition crowded :: world where
  "crowded = busy\<lparr>names := (\<lambda>p. if p = ''app.log'' then Some 0
                               else if p \<in> rotated_name ''app.log'' ''2024-03-05'' ` {1..999} then Some 1
                               else None)\<rparr>"

text \<open>A handler of the size mode with a threshold of four bytes, opened on that file.\<close>

definition size_handler :: RotateHandler where
  "size_handler =
     (NewSizeRotateHandler ''app.log'' 4)
       \<lparr>mw := \<lparr>logFile = Some \<lparr>file_ino = 0, closed = False\<rparr>\<rparr>,
        curLines := 1, curSize := 4, openDate := 5\<rparr>"

text \<open>The same handler with a threshold of a hundred bytes: it is what \<^verbatim>\<open>Init\<close> makes
  of \<^verbatim>\<open>NewSizeRotateHandler("app.log", 100)\<close> in the world \<open>busy\<close>.\<close>

definition small_handler :: RotateHandler where
  "small_handler = size_handler\<lparr>MaxSize := 100\<rparr>"

text \<open>The day after.\<close>

definition next_day :: world where
  "next_day = busy\<lparr>now_unix := 1709726400, now_day := 6, now_date := ''2024-03-06''\<rparr>"

text \<open>The world \<open>busy\<close> when the directory cannot be written: every rename fails.\<close>

definition stuck :: world where
  "stuck = busy\<lparr>rename_fault := (\<lambda>p q. Some (OsError ''permission denied''))\<rparr>"

text \<open>The world \<open>busy\<close> when the disk is full: a write fails before its first byte.\<close>

definition disk_full :: world where
  "disk_full = busy\<lparr>write_fault := (\<lambda>i. Some (0, OsError ''no space left on device''))\<rparr>"

text \<open>A log file of two lines, each ended by a line feed.\<close>

definition two_lines :: world where
  "two_lines =
     quiet\<lparr>names := [''app.log'' \<mapsto> 0],
           inodes := (\<lambda>i. \<lparr>content = (if i = 0 then ''a\<newline>b\<newline>'' else []), modTime = 1709630000\<rparr>),
           next_ino := 1\<rparr>"

text \<open>A handler that rotates daily and keeps thirty days.\<close>

definition monthly :: RotateHandler where
  "monthly = NewDailyRotateHandler ''app.log'' 30"

text \<open>A sweep at noon of 5 March 2024 in which no removal fails.\<close>

definition sweep0 :: sweep_world where
  "sweep0 = \<lparr>sw_now = 1709640000, remove_fault = (\<lambda>p. None), removed = []\<rparr>"

text \<open>
  The directory of the live file: the live file, rotated files that are forty, ten and
  one day old, a subdirectory with a rotated file of the year before, and the file of
  another logger, a hundred days old.
\<close>

definition log_dir :: tree where
  "log_dir =
     Tree ''.'' (Some \<lparr>IsDir = True, ModTime = 1709640000\<rparr>) None
       [Tree ''app.log'' (Some \<lparr>IsDir = False, ModTime = 1709639990\<rparr>) None [],
        Tree ''app.log.2024-01-25.001'' (Some \<lparr>IsDir = False, ModTime = 1706184000\<rparr>) None [],
        Tree ''app.log.2024-02-24.001'' (Some \<lparr>IsDir = False, ModTime = 1708776000\<rparr>) None [],
        Tree ''app.log.2024-03-04.001'' (Some \<lparr>IsDir = False, ModTime = 1709553600\<rparr>) None [],
        Tree ''old'' (Some \<lparr>IsDir = True, ModTime = 1701000000\<rparr>) None
          [Tree ''app.log.2023-01-01.001'' (Some \<lparr>IsDir = False, ModTime = 1672531200\<rparr>) None []],
        Tree ''other.log'' (Some \<lparr>IsDir = False, ModTime = 1701000000\<rparr>) None []]"

text \<open>A directory whose first entry has gone since it was listed; the second is forty
  days old.\<close>

definition gone_dir :: tree where
  "gone_dir =
     Tree ''.'' (Some \<lparr>IsDir = True, ModTime = 1709640000\<rparr>) None
       [Tree ''app.log.2024-01-20.001'' None None [],
        Tree ''app.log.2024-01-25.001'' (Some \<lparr>IsDir = False, ModTime = 1706184000\<rparr>) None []]"

text \<open>The same directory without the entry that has gone.\<close>

definition left_dir :: tree where
  "left_dir =
     Tree ''.'' (Some \<lparr>IsDir = True, ModTime = 1709640000\<rparr>) None
       [Tree ''app.log.2024-01-25.001'' (Some \<lparr>IsDir = False, ModTime = 1706184000\<rparr>) None []]"

section \<open>Formatting and the search for a free name\<close>

lemma length_decimal_lt10: "n < 10 \<Longrightarrow> length (decimal n) = 1"
  by (subst decimal.simps) simp

lemma length_decimal_lt100: "10 \<le> n \<Longrightarrow> n < 100 \<Longrightarrow> length (decimal n) = 2"
  by (subst decimal.simps) (simp add: length_decimal_lt10)

lemma length_decimal_lt1000: "100 \<le> n \<Longrightarrow> n < 1000 \<Longrightarrow> length (decimal n) = 3"
  by (subst decimal.simps) (simp add: length_decimal_lt100)

lemma length_decimal_le3: "n < 1000 \<Longrightarrow> length (decimal n) \<le> 3"
  using length_decimal_lt10 [of n] length_decimal_lt100 [of n] length_decimal_lt1000 [of n]
  by (cases "n < 10"; cases "n < 100") auto

lemma length_Sprintf_03d: "n < 1000 \<Longrightarrow> length (Sprintf_03d n) = 3"
  using length_decimal_le3 [of n] by (simp add: Sprintf_03d_def)

lemma find_free_stop: "\<not> (b \<and> num \<le> 999) \<Longrightarrow> find_free fp s num fname b = (fname, b)"
  by (subst find_free.simps) auto

lemma find_free_step:
  "num \<le> 999 \<Longrightarrow>
   find_free fp s num fname True =
     find_free fp s (Suc num) (rotated_name fp (now_date s) num)
       (names s (rotated_name fp (now_date s) num) \<noteq> None)"
  by (subst find_free.simps) (simp add: os_Lstat_def split: option.splits)

lemma find_free_found:
  "find_free fp s num fname True = (f, False) \<Longrightarrow>
   \<exists>k. num \<le> k \<and> k \<le> 999 \<and> f = rotated_name fp (now_date s) k \<and> names s f = None \<and>
       (\<forall>j. num \<le> j \<and> j < k \<longrightarrow> names s (rotated_name fp (now_date s) j) \<noteq> None)"
proof (induction "1000 - num" arbitrary: num fname)
  case 0
  then have "\<not> (True \<and> num \<le> 999)" by simp
  from find_free_stop [OF this] 0 show ?case by simp
next
  case (Suc d)
  then have le: "num \<le> 999" by simp
  let ?c = "rotated_name fp (now_date s) num"
  show ?case
  proof (cases "names s ?c = None")
    case True
    with Suc.prems le have "find_free fp s (Suc num) ?c False = (f, False)"
      by (simp add: find_free_step)
    then have "f = ?c" by (simp add: find_free_stop)
    with True le show ?thesis by (intro exI [of _ num]) auto
  next
    case False
    with Suc.prems le have run: "find_free fp s (Suc num) ?c True = (f, False)"
      by (simp add: find_free_step)
    from Suc.hyps(2) have "d = 1000 - Suc num" by simp
    from Suc.hyps(1) [OF this run] obtain k where
      k: "Suc num \<le> k" "k \<le> 999" "f = rotated_name fp (now_date s) k" "names s f = None"
        "\<forall>j. Suc num \<le> j \<and> j < k \<longrightarrow> names s (rotated_name fp (now_date s) j) \<noteq> None"
      by blast
    have "\<forall>j. num \<le> j \<and> j < k \<longrightarrow> names s (rotated_name fp (now_date s) j) \<noteq> None"
    proof (intro allI impI)
      fix j assume "num \<le> j \<and> j < k"
      then consider "j = num" | "Suc num \<le> j \<and> j < k" by linarith
      then show "names s (rotated_name fp (now_date s) j) \<noteq> None"
        using False k(5) by cases auto
    qed
    with k show ?thesis by (intro exI [of _ k]) simp
  qed
qed

lemma find_free_exhausted:
  "find_free fp s num fname True = (f, True) \<Longrightarrow>
   (\<forall>j. num \<le> j \<and> j \<le> 999 \<longrightarrow> names s (rotated_name fp (now_date s) j) \<noteq> None)"
proof (induction "1000 - num" arbitrary: num fname)
  case 0
  then show ?case by auto
next
  case (Suc d)
  then have le: "num \<le> 999" by simp
  let ?c = "rotated_name fp (now_date s) num"
  show ?case
  proof (cases "names s ?c = None")
    case True
    with Suc.prems le have "find_free fp s (Suc num) ?c False = (f, True)"
      by (simp add: find_free_step)
    then show ?thesis by (simp add: find_free_stop)
  next
    case False
    with Suc.prems le have run: "find_free fp s (Suc num) ?c True = (f, True)"
      by (simp add: find_free_step)
    from Suc.hyps(2) have "d = 1000 - Suc num" by simp
    from Suc.hyps(1) [OF this run]
    have ih: "\<forall>j. Suc num \<le> j \<and> j \<le> 999 \<longrightarrow> names s (rotated_name fp (now_date s) j) \<noteq> None" .
    show ?thesis
    proof (intro allI impI)
      fix j assume "num \<le> j \<and> j \<le> 999"
      then consider "j = num" | "Suc num \<le> j \<and> j \<le> 999" by linarith
      then show "names s (rotated_name fp (now_date s) j) \<noteq> None"
        using False ih by cases auto
    qed
  qed
qed

lemma find_free_all_taken:
  "(\<forall>j. num \<le> j \<and> j \<le> 999 \<longrightarrow> names s (rotated_name fp (now_date s) j) \<noteq> None) \<Longrightarrow>
   snd (find_free fp s num fname True)"
proof (induction "1000 - num" arbitrary: num fname)
  case 0
  then show ?case by (simp add: find_free_stop)
next
  case (Suc d)
  then have le: "num \<le> 999" by simp
  from Suc.hyps(2) have d: "d = 1000 - Suc num" by simp
  have taken: "names s (rotated_name fp (now_date s) num) \<noteq> None"
    using Suc.prems le by simp
  have "snd (find_free fp s (Suc num) (rotated_name fp (now_date s) num) True)"
    by (rule Suc.hyps(1) [OF d]) (use Suc.prems in auto)
  with taken le show ?case by (simp add: find_free_step)
qed

section \<open>Opening the file\<close>

lemmas init_defs = Init_def createLogFile_def os_MkdirAll_def os_OpenFile_def SetLogFile_def
  initLogFile_def File_Stat_def ioutil_ReadFile_def

lemma Init_empty: "FilePath w = [] \<Longrightarrow> Init w s = Panics ConfigNoFilename"
  by (simp add: Init_def)

lemma Init_open_fault:
  "FilePath w \<noteq> [] \<Longrightarrow> open_fault s (FilePath w) = Some e \<Longrightarrow> Init w s = Panics e"
  by (simp add: init_defs)

lemma Init_existing:
  "FilePath w \<noteq> [] \<Longrightarrow> open_fault s (FilePath w) = None \<Longrightarrow> names s (FilePath w) = Some i \<Longrightarrow>
   Init w s =
     (case stat_fault s i of
        Some e \<Rightarrow> Panics (GetStat e)
      | None \<Rightarrow>
          if content (inodes s i) = [] then
            Returns (w\<lparr>mw := (mw w)\<lparr>logFile := Some \<lparr>file_ino = i, closed = False\<rparr>\<rparr>,
                       curSize := 0, openDate := now_day s, curLines := 0\<rparr>, s)
          else
            (case read_fault s (FilePath w) of
               Some e \<Rightarrow> Panics e
             | None \<Rightarrow>
                 Returns (w\<lparr>mw := (mw w)\<lparr>logFile := Some \<lparr>file_ino = i, closed = False\<rparr>\<rparr>,
                            curSize := int (length (content (inodes s i))),
                            openDate := now_day s,
                            curLines := int (length (strings_Split (content (inodes s i)) (CHR 0x0A)))\<rparr>,
                          s)))"
  by (simp add: init_defs Let_def split: option.splits)

lemma Init_fresh:
  "FilePath w \<noteq> [] \<Longrightarrow> open_fault s (FilePath w) = None \<Longrightarrow> names s (FilePath w) = None \<Longrightarrow>
   Init w s =
     (case stat_fault s (next_ino s) of
        Some e \<Rightarrow> Panics (GetStat e)
      | None \<Rightarrow>
          Returns (w\<lparr>mw := (mw w)\<lparr>logFile := Some \<lparr>file_ino = next_ino s, closed = False\<rparr>\<rparr>,
                     curSize := 0, openDate := now_day s, curLines := 0\<rparr>,
                   s\<lparr>names := (names s)(FilePath w \<mapsto> next_ino s),
                     inodes := (inodes s)(next_ino s := \<lparr>content = [], modTime = now_unix s\<rparr>),
                     next_ino := Suc (next_ino s)\<rparr>))"
  by (simp add: init_defs Let_def split: option.splits)

text \<open>
  Claim C9. \<^verbatim>\<open>Init\<close> panics exactly when the path is empty, the file cannot be opened
  or created, or the counters cannot be seeded from the opened file (its \<^verbatim>\<open>Stat\<close> fails,
  or it is not empty and cannot be read). When \<^verbatim>\<open>Init\<close> returns, the handler holds an
  open file that has the configured name, a file that was there is the one opened and the
  world is unchanged, a file that was not there has been created empty, and the counters
  are seeded from it.
\<close>

theorem Init_panics_iff:
  "((\<exists>e. Init w s = Panics e) \<longleftrightarrow>
      (FilePath w = [] \<or> open_fault s (FilePath w) \<noteq> None \<or>
       (\<exists>fd s1. os_OpenFile (FilePath w) s = (Inr fd, s1) \<and>
          (stat_fault s1 (file_ino fd) \<noteq> None \<or>
           (content (inodes s1 (file_ino fd)) \<noteq> [] \<and> read_fault s1 (FilePath w) \<noteq> None))))) \<and>
   (\<forall>w' s'. Init w s = Returns (w', s') \<longrightarrow>
      (\<exists>fd. logFile (mw w') = Some fd \<and> \<not> closed fd \<and>
         names s' (FilePath w) = Some (file_ino fd) \<and>
         curSize w' = int (length (content (inodes s' (file_ino fd)))) \<and>
         curLines w' =
           (if content (inodes s' (file_ino fd)) = [] then 0
            else int (length (strings_Split (content (inodes s' (file_ino fd))) (CHR 0x0A)))) \<and>
         openDate w' = now_day s' \<and>
         (case names s (FilePath w) of
            Some i \<Rightarrow> file_ino fd = i \<and> s' = s
          | None \<Rightarrow> content (inodes s' (file_ino fd)) = [])))"
proof (cases "FilePath w = []")
  case True
  then show ?thesis by (simp add: Init_empty)
next
  case path: False
  show ?thesis
  proof (cases "open_fault s (FilePath w)")
    case (Some e)
    with path show ?thesis by (simp add: Init_open_fault)
  next
    case nofault: None
    show ?thesis
    proof (cases "names s (FilePath w)")
      case None
      with path nofault have op: "os_OpenFile (FilePath w) s =
          (Inr \<lparr>file_ino = next_ino s, closed = False\<rparr>,
           s\<lparr>names := (names s)(FilePath w \<mapsto> next_ino s),
             inodes := (inodes s)(next_ino s := \<lparr>content = [], modTime = now_unix s\<rparr>),
             next_ino := Suc (next_ino s)\<rparr>)"
        by (simp add: os_OpenFile_def)
      show ?thesis
        using path nofault None
        by (cases "stat_fault s (next_ino s)") (simp_all add: Init_fresh op)
    next
      case (Some i)
      with path nofault have op: "os_OpenFile (FilePath w) s = (Inr \<lparr>file_ino = i, closed = False\<rparr>, s)"
        by (simp add: os_OpenFile_def)
      show ?thesis
        using path nofault Some
        by (cases "stat_fault s i"; cases "read_fault s (FilePath w)")
          (simp_all add: Init_existing op)
    qed
  qed
qed

theorem Init_panics_iff_witness:
  "(\<exists>e. Init (NewDefaultHandler []) quiet = Panics e) \<and>
   (\<forall>e. Init (NewDefaultHandler ''app.log'') quiet \<noteq> Panics e) \<and>
   (\<exists>e. Init (NewDefaultHandler ''app.log'')
           (quiet\<lparr>open_fault := (\<lambda>p. Some (OsError ''permission denied''))\<rparr>) = Panics e)"
  using Init_panics_iff [of "NewDefaultHandler []" quiet]
    Init_panics_iff [of "NewDefaultHandler ''app.log''" quiet]
    Init_panics_iff [of "NewDefaultHandler ''app.log''"
      "quiet\<lparr>open_fault := (\<lambda>p. Some (OsError ''permission denied''))\<rparr>"]
  by (simp add: NewDefaultHandler_def quiet_def os_OpenFile_def)

section \<open>Rotation\<close>

lemma rotated_name_neq: "rotated_name fp d k \<noteq> fp"
  by (simp add: rotated_name_def)

lemma DoRotate_absent: "names s (FilePath w) = None \<Longrightarrow> DoRotate w s = Returns (w, s, None)"
  by (simp add: DoRotate_def os_Lstat_def)

lemma DoRotate_exhausted:
  "names s (FilePath w) = Some i \<Longrightarrow> snd (find_free (FilePath w) s 1 [] True) \<Longrightarrow>
   DoRotate w s = Returns (w, s, Some (NoFreeLogNumber (FilePath w)))"
  by (cases "find_free (FilePath w) s 1 [] True") (simp add: DoRotate_def os_Lstat_def)

lemma DoRotate_found:
  "names s (FilePath w) = Some i \<Longrightarrow> find_free (FilePath w) s 1 [] True = (f, False) \<Longrightarrow>
   f \<noteq> FilePath w \<Longrightarrow>
   DoRotate w s =
     (case rename_fault s (FilePath w) f of
        Some e \<Rightarrow>
          Returns (w\<lparr>mw := (mw w)\<lparr>logFile := File_Close (logFile (mw w))\<rparr>\<rparr>, s, Some (RotateError e))
      | None \<Rightarrow>
          (case Init (w\<lparr>mw := (mw w)\<lparr>logFile := File_Close (logFile (mw w))\<rparr>\<rparr>)
                  (s\<lparr>names := (names s)(FilePath w := None, f \<mapsto> i)\<rparr>) of
             Panics e \<Rightarrow> Panics e
           | Returns (w2, s2) \<Rightarrow> Returns (w2, s2\<lparr>sweeps := Suc (sweeps s2)\<rparr>, None)))"
  by (simp add: DoRotate_def os_Lstat_def os_Rename_def Let_def split: option.splits)

text \<open>What a rotation that goes through leaves.\<close>

lemma DoRotate_success:
  assumes live: "names s (FilePath w) = Some i"
    and found: "find_free (FilePath w) s 1 [] True = (f, False)"
    and neq: "f \<noteq> FilePath w"
    and ok: "DoRotate w s = Returns (w', s', None)"
  shows "w' = w\<lparr>mw := (mw w)\<lparr>logFile := Some \<lparr>file_ino = next_ino s, closed = False\<rparr>\<rparr>,
                 curSize := 0, openDate := now_day s, curLines := 0\<rparr> \<and>
         s' = s\<lparr>names := (names s)(FilePath w \<mapsto> next_ino s, f \<mapsto> i),
                inodes := (inodes s)(next_ino s := \<lparr>content = [], modTime = now_unix s\<rparr>),
                next_ino := Suc (next_ino s),
                sweeps := Suc (sweeps s)\<rparr>"
proof -
  let ?w1 = "w\<lparr>mw := (mw w)\<lparr>logFile := File_Close (logFile (mw w))\<rparr>\<rparr>"
  let ?s1 = "s\<lparr>names := (names s)(FilePath w := None, f \<mapsto> i)\<rparr>"
  from ok have rf: "rename_fault s (FilePath w) f = None"
    by (cases "rename_fault s (FilePath w) f") (simp_all add: DoRotate_found [OF live found neq])
  from ok rf obtain w2 s2 where init: "Init ?w1 ?s1 = Returns (w2, s2)"
    and res: "w' = w2" "s' = s2\<lparr>sweeps := Suc (sweeps s2)\<rparr>"
    by (cases "Init ?w1 ?s1") (auto simp: DoRotate_found [OF live found neq])
  from init have path: "FilePath w \<noteq> []"
    by (cases "FilePath w = []") (simp_all add: Init_empty)
  from init path have op: "open_fault s (FilePath w) = None"
    by (cases "open_fault s (FilePath w)") (simp_all add: Init_open_fault)
  have absent: "names ?s1 (FilePath ?w1) = None" using neq by simp
  from init have sf: "stat_fault s (next_ino s) = None"
    using Init_fresh [of ?w1 ?s1] path op absent
    by (cases "stat_fault s (next_ino s)") simp_all
  from init have "w2 = ?w1\<lparr>mw := (mw ?w1)\<lparr>logFile := Some \<lparr>file_ino = next_ino s, closed = False\<rparr>\<rparr>,
                     curSize := 0, openDate := now_day s, curLines := 0\<rparr> \<and>
       s2 = ?s1\<lparr>names := (names ?s1)(FilePath w \<mapsto> next_ino s),
                 inodes := (inodes s)(next_ino s := \<lparr>content = [], modTime = now_unix s\<rparr>),
                 next_ino := Suc (next_ino s)\<rparr>"
    using Init_fresh [of ?w1 ?s1] path op absent sf by simp
  with res neq show ?thesis by (simp add: fun_upd_twist)
qed

lemma decimal_digit: "n < 10 \<Longrightarrow> decimal n = [digit_char n]"
  by (subst decimal.simps) simp

lemma Sprintf_03d_1: "Sprintf_03d 1 = ''001''"
  by code_simp

lemma Sprintf_03d_2: "Sprintf_03d 2 = ''002''"
  by code_simp

lemma busy_001: "names busy (rotated_name ''app.log'' ''2024-03-05'' 1) \<noteq> None"
  by (simp add: busy_def rotated_name_def Sprintf_03d_1 del: One_nat_def)

lemma busy_002: "names busy (rotated_name ''app.log'' ''2024-03-05'' 2) = None"
  by (simp add: busy_def rotated_name_def Sprintf_03d_2)

lemma find_free_busy:
  "find_free ''app.log'' busy 1 [] True = (''app.log.2024-03-05.002'', False)"
  by code_simp

lemma DoRotate_busy:
  "DoRotate size_handler busy =
     Returns (size_handler\<lparr>mw := \<lparr>logFile = Some \<lparr>file_ino = 2, closed = False\<rparr>\<rparr>,
                curLines := 0, curSize := 0\<rparr>,
              busy\<lparr>names := [''app.log'' \<mapsto> 2, ''app.log.2024-03-05.001'' \<mapsto> 1,
                               ''app.log.2024-03-05.002'' \<mapsto> 0],
                   inodes := (inodes busy)(2 := \<lparr>content = [], modTime = 1709640000\<rparr>),
                   next_ino := 3, sweeps := 1\<rparr>, None)"
proof -
  have fp: "FilePath size_handler = ''app.log''"
    by (simp add: size_handler_def NewSizeRotateHandler_def)
  have live: "names busy (FilePath size_handler) = Some 0" by (simp add: fp busy_def)
  have ff: "find_free (FilePath size_handler) busy 1 [] True = (''app.log.2024-03-05.002'', False)"
    by (simp add: fp find_free_busy del: One_nat_def)
  have neq: "''app.log.2024-03-05.002'' \<noteq> FilePath size_handler" by (simp add: fp)
  show ?thesis
    apply (simp add: DoRotate_found [OF live ff neq])
    apply (simp add: fp busy_def quiet_def size_handler_def NewSizeRotateHandler_def File_Close_def Init_fresh)
    apply (rule ext)
    apply simp
    done
qed

lemma crowded_live: "names crowded (FilePath size_handler) = Some 0"
  by (simp add: crowded_def size_handler_def NewSizeRotateHandler_def)

lemma crowded_names:
  "names crowded = (\<lambda>p. if p = ''app.log'' then Some 0
                               else if p \<in> rotated_name ''app.log'' ''2024-03-05'' ` {1..999} then Some 1
                               else None)"
  by (simp add: crowded_def)

lemma crowded_date: "now_date crowded = ''2024-03-05''"
  by (simp add: crowded_def busy_def quiet_def)

lemma size_handler_path: "FilePath size_handler = ''app.log''"
  by (simp add: size_handler_def NewSizeRotateHandler_def)

lemma crowded_taken:
  "\<forall>k. 1 \<le> k \<and> k \<le> 999 \<longrightarrow>
     names crowded (rotated_name (FilePath size_handler) (now_date crowded) k) \<noteq> None"
proof (intro allI impI)
  fix k :: nat assume "1 \<le> k \<and> k \<le> 999"
  then have "rotated_name ''app.log'' ''2024-03-05'' k \<in> rotated_name ''app.log'' ''2024-03-05'' ` {1..999}"
    by (intro imageI) simp
  then show "names crowded (rotated_name (FilePath size_handler) (now_date crowded) k) \<noteq> None"
    by (simp only: crowded_names crowded_date size_handler_path) simp
qed

text \<open>
  Claim C5. When the live file exists, \<^verbatim>\<open>DoRotate\<close> tries the names
  \<open>path.date.001\<close>, \<open>path.date.002\<close>, ... in turn. If the 999 of them are all taken it
  returns the error and changes nothing. Otherwise there is a first number \<open>k\<close> whose name
  is free, written with three digits, and \<^verbatim>\<open>DoRotate\<close> is the rename of the live file
  to that name followed by \<^verbatim>\<open>Init\<close>: it returns the error of the rename when the rename
  fails, and otherwise opens the file again in the world where the live name is gone and
  the new name is on the file the live name was on. It returns no error whenever the
  rename, the open and the \<^verbatim>\<open>Stat\<close> do not fail. A rotation that returns no error has
  given the new name to the old file and the live name to a new, empty file, which is the
  one the handler now holds; it has kept every other name on the file it had, has made no
  other name, has changed no file but the one it creates, has set the counters to zero
  and has launched one sweep.
\<close>

theorem DoRotate_free_name:
  assumes live: "names s (FilePath w) = Some i"
  shows
    "if \<forall>k. 1 \<le> k \<and> k \<le> 999 \<longrightarrow> names s (rotated_name (FilePath w) (now_date s) k) \<noteq> None
     then DoRotate w s = Returns (w, s, Some (NoFreeLogNumber (FilePath w)))
     else
       (\<exists>k. 1 \<le> k \<and> k \<le> 999 \<and> length (Sprintf_03d k) = 3 \<and>
          names s (rotated_name (FilePath w) (now_date s) k) = None \<and>
          (\<forall>j. 1 \<le> j \<and> j < k \<longrightarrow> names s (rotated_name (FilePath w) (now_date s) j) \<noteq> None) \<and>
          DoRotate w s =
            (case rename_fault s (FilePath w) (rotated_name (FilePath w) (now_date s) k) of
               Some e \<Rightarrow>
                 Returns (w\<lparr>mw := (mw w)\<lparr>logFile := File_Close (logFile (mw w))\<rparr>\<rparr>, s,
                          Some (RotateError e))
             | None \<Rightarrow>
                 (case Init (w\<lparr>mw := (mw w)\<lparr>logFile := File_Close (logFile (mw w))\<rparr>\<rparr>)
                         (s\<lparr>names := (names s)(FilePath w := None,
                                       rotated_name (FilePath w) (now_date s) k \<mapsto> i)\<rparr>) of
                    Panics e \<Rightarrow> Panics e
                  | Returns (w2, s2) \<Rightarrow> Returns (w2, s2\<lparr>sweeps := Suc (sweeps s2)\<rparr>, None))) \<and>
          (FilePath w \<noteq> [] \<and>
           rename_fault s (FilePath w) (rotated_name (FilePath w) (now_date s) k) = None \<and>
           open_fault s (FilePath w) = None \<and> stat_fault s (next_ino s) = None \<longrightarrow>
             (\<exists>w' s'. DoRotate w s = Returns (w', s', None))) \<and>
          (\<forall>w' s'. DoRotate w s = Returns (w', s', None) \<longrightarrow>
             names s' (rotated_name (FilePath w) (now_date s) k) = Some i \<and>
             (\<forall>p j. p \<noteq> FilePath w \<and> names s p = Some j \<longrightarrow> names s' p = Some j) \<and>
             (\<forall>j. j \<noteq> next_ino s \<longrightarrow> inodes s' j = inodes s j) \<and>
             names s' (FilePath w) = Some (next_ino s) \<and>
             inodes s' (next_ino s) = \<lparr>content = [], modTime = now_unix s\<rparr> \<and>
             (\<forall>p. p \<noteq> FilePath w \<and> p \<noteq> rotated_name (FilePath w) (now_date s) k \<longrightarrow>
                  names s' p = names s p) \<and>
             logFile (mw w') = Some \<lparr>file_ino = next_ino s, closed = False\<rparr> \<and>
             curLines w' = 0 \<and> curSize w' = 0 \<and> openDate w' = now_day s \<and>
             sweeps s' = Suc (sweeps s)))"
proof (cases "\<forall>k. 1 \<le> k \<and> k \<le> 999 \<longrightarrow> names s (rotated_name (FilePath w) (now_date s) k) \<noteq> None")
  case True
  then have "snd (find_free (FilePath w) s 1 [] True)"
    by (intro find_free_all_taken) simp
  with live True show ?thesis by (simp add: DoRotate_exhausted)
next
  case False
  let ?w1 = "w\<lparr>mw := (mw w)\<lparr>logFile := File_Close (logFile (mw w))\<rparr>\<rparr>"
  obtain f b where ff: "find_free (FilePath w) s 1 [] True = (f, b)"
    by (cases "find_free (FilePath w) s 1 [] True")
  have "\<not> b"
  proof
    assume b
    with ff have "find_free (FilePath w) s 1 [] True = (f, True)" by simp
    from find_free_exhausted [OF this] False show False by simp
  qed
  with ff have found: "find_free (FilePath w) s 1 [] True = (f, False)" by simp
  from find_free_found [OF found] obtain k where
    k: "1 \<le> k" "k \<le> 999" "f = rotated_name (FilePath w) (now_date s) k" "names s f = None"
      "\<forall>j. 1 \<le> j \<and> j < k \<longrightarrow> names s (rotated_name (FilePath w) (now_date s) j) \<noteq> None"
    by blast
  let ?f = "rotated_name (FilePath w) (now_date s) k"
  note found = found [unfolded k(3)]
  have free: "names s ?f = None" using k(3,4) by simp
  have neq: "?f \<noteq> FilePath w" by (simp add: rotated_name_neq)
  have len: "length (Sprintf_03d k) = 3" using k(2) by (simp add: length_Sprintf_03d)
  have eq: "DoRotate w s =
            (case rename_fault s (FilePath w) ?f of
               Some e \<Rightarrow> Returns (?w1, s, Some (RotateError e))
             | None \<Rightarrow>
                 (case Init ?w1 (s\<lparr>names := (names s)(FilePath w := None, ?f \<mapsto> i)\<rparr>) of
                    Panics e \<Rightarrow> Panics e
                  | Returns (w2, s2) \<Rightarrow> Returns (w2, s2\<lparr>sweeps := Suc (sweeps s2)\<rparr>, None)))"
    by (rule DoRotate_found [OF live found neq])
  have runs: "FilePath w \<noteq> [] \<and> rename_fault s (FilePath w) ?f = None \<and>
           open_fault s (FilePath w) = None \<and> stat_fault s (next_ino s) = None \<longrightarrow>
             (\<exists>w' s'. DoRotate w s = Returns (w', s', None))"
  proof
    assume a: "FilePath w \<noteq> [] \<and> rename_fault s (FilePath w) ?f = None \<and>
           open_fault s (FilePath w) = None \<and> stat_fault s (next_ino s) = None"
    have "\<exists>w2 s2. Init ?w1 (s\<lparr>names := (names s)(FilePath w := None, ?f \<mapsto> i)\<rparr>) = Returns (w2, s2)"
      using a neq by (simp add: Init_fresh)
    then obtain w2 s2 where "Init ?w1 (s\<lparr>names := (names s)(FilePath w := None, ?f \<mapsto> i)\<rparr>) = Returns (w2, s2)"
      by blast
    with a have "DoRotate w s = Returns (w2, s2\<lparr>sweeps := Suc (sweeps s2)\<rparr>, None)"
      by (simp add: eq)
    then show "\<exists>w' s'. DoRotate w s = Returns (w', s', None)" by blast
  qed
  have post: "\<forall>w' s'. DoRotate w s = Returns (w', s', None) \<longrightarrow>
             names s' ?f = Some i \<and>
             (\<forall>p j. p \<noteq> FilePath w \<and> names s p = Some j \<longrightarrow> names s' p = Some j) \<and>
             (\<forall>j. j \<noteq> next_ino s \<longrightarrow> inodes s' j = inodes s j) \<and>
             names s' (FilePath w) = Some (next_ino s) \<and>
             inodes s' (next_ino s) = \<lparr>content = [], modTime = now_unix s\<rparr> \<and>
             (\<forall>p. p \<noteq> FilePath w \<and> p \<noteq> ?f \<longrightarrow> names s' p = names s p) \<and>
             logFile (mw w') = Some \<lparr>file_ino = next_ino s, closed = False\<rparr> \<and>
             curLines w' = 0 \<and> curSize w' = 0 \<and> openDate w' = now_day s \<and>
             sweeps s' = Suc (sweeps s)"
  proof (intro allI impI)
    fix w' s' assume "DoRotate w s = Returns (w', s', None)"
    from DoRotate_success [OF live found neq this]
    have w': "w' = w\<lparr>mw := (mw w)\<lparr>logFile := Some \<lparr>file_ino = next_ino s, closed = False\<rparr>\<rparr>,
                 curSize := 0, openDate := now_day s, curLines := 0\<rparr>"
      and s': "s' = s\<lparr>names := (names s)(FilePath w \<mapsto> next_ino s, ?f \<mapsto> i),
                inodes := (inodes s)(next_ino s := \<lparr>content = [], modTime = now_unix s\<rparr>),
                next_ino := Suc (next_ino s),
                sweeps := Suc (sweeps s)\<rparr>" by simp_all
    show "names s' ?f = Some i \<and>
             (\<forall>p j. p \<noteq> FilePath w \<and> names s p = Some j \<longrightarrow> names s' p = Some j) \<and>
             (\<forall>j. j \<noteq> next_ino s \<longrightarrow> inodes s' j = inodes s j) \<and>
             names s' (FilePath w) = Some (next_ino s) \<and>
             inodes s' (next_ino s) = \<lparr>content = [], modTime = now_unix s\<rparr> \<and>
             (\<forall>p. p \<noteq> FilePath w \<and> p \<noteq> ?f \<longrightarrow> names s' p = names s p) \<and>
             logFile (mw w') = Some \<lparr>file_ino = next_ino s, closed = False\<rparr> \<and>
             curLines w' = 0 \<and> curSize w' = 0 \<and> openDate w' = now_day s \<and>
             sweeps s' = Suc (sweeps s)"
      using free neq by (auto simp: s' w')
  qed
  have k1: "1 \<le> k" and k2: "k \<le> 999" by (rule k(1), rule k(2))
  note taken = k(5)
  show ?thesis
    unfolding if_not_P [OF False]
    by (rule exI [of _ k]) (intro conjI; fact)
qed


theorem DoRotate_free_name_witness:
  "names busy (FilePath size_handler) = Some 0 \<and>
   (\<exists>w' s'. DoRotate size_handler busy = Returns (w', s', None) \<and>
      names s' ''app.log.2024-03-05.001'' = Some 1 \<and>
      names s' ''app.log.2024-03-05.002'' = Some 0 \<and>
      names s' ''app.log'' = Some 2 \<and> content (inodes s' 2) = [] \<and> sweeps s' = 1) \<and>
   names crowded (FilePath size_handler) = Some 0 \<and>
   DoRotate size_handler crowded =
     Returns (size_handler, crowded, Some (NoFreeLogNumber ''app.log''))"
proof -
  let ?name = "rotated_name (FilePath size_handler) (now_date busy)"
  have d: "now_date busy = ''2024-03-05''" by (simp add: busy_def quiet_def)
  have live: "names busy (FilePath size_handler) = Some 0"
    by (simp add: size_handler_path busy_def)
  have free: "\<not> (\<forall>k. 1 \<le> k \<and> k \<le> 999 \<longrightarrow> names busy (?name k) \<noteq> None)"
  proof
    assume "\<forall>k. 1 \<le> k \<and> k \<le> 999 \<longrightarrow> names busy (?name k) \<noteq> None"
    then have "names busy (?name 2) \<noteq> None" by simp
    with busy_002 show False by (simp add: size_handler_path d)
  qed
  have quiet: "FilePath size_handler \<noteq> []" "open_fault busy (FilePath size_handler) = None"
    "stat_fault busy (next_ino busy) = None" "\<And>f. rename_fault busy (FilePath size_handler) f = None"
    by (simp_all add: size_handler_path busy_def quiet_def)
  note t = DoRotate_free_name [OF live, unfolded if_not_P [OF free]]
  then obtain k where
    k: "1 \<le> k" "names busy (?name k) = None"
      "\<forall>j. 1 \<le> j \<and> j < k \<longrightarrow> names busy (?name j) \<noteq> None"
    and runs: "FilePath size_handler \<noteq> [] \<and>
           rename_fault busy (FilePath size_handler) (?name k) = None \<and>
           open_fault busy (FilePath size_handler) = None \<and>
           stat_fault busy (next_ino busy) = None \<longrightarrow>
             (\<exists>w' s'. DoRotate size_handler busy = Returns (w', s', None))"
    and post: "\<forall>w' s'. DoRotate size_handler busy = Returns (w', s', None) \<longrightarrow>
         names s' (?name k) = Some 0 \<and>
         (\<forall>p j. p \<noteq> FilePath size_handler \<and> names busy p = Some j \<longrightarrow> names s' p = Some j) \<and>
         (\<forall>j. j \<noteq> next_ino busy \<longrightarrow> inodes s' j = inodes busy j) \<and>
         names s' (FilePath size_handler) = Some (next_ino busy) \<and>
         inodes s' (next_ino busy) = \<lparr>content = [], modTime = now_unix busy\<rparr> \<and>
         (\<forall>p. p \<noteq> FilePath size_handler \<and> p \<noteq> ?name k \<longrightarrow> names s' p = names busy p) \<and>
         logFile (mw w') = Some \<lparr>file_ino = next_ino busy, closed = False\<rparr> \<and>
         curLines w' = 0 \<and> curSize w' = 0 \<and> openDate w' = now_day busy \<and>
         sweeps s' = Suc (sweeps busy)"
    by blast
  have "k \<noteq> 1" using k(2) busy_001 by (auto simp: size_handler_path d)
  moreover have "\<not> 2 < k"
  proof
    assume "2 < k"
    with k(3) have "names busy (?name 2) \<noteq> None" by simp
    with busy_002 show False by (simp add: size_handler_path d)
  qed
  ultimately have k2: "k = 2" using k(1) by linarith
  from runs quiet obtain w' s' where run: "DoRotate size_handler busy = Returns (w', s', None)"
    by blast
  from post run have p1: "names s' (?name k) = Some 0"
    and p2: "\<forall>p j. p \<noteq> FilePath size_handler \<and> names busy p = Some j \<longrightarrow> names s' p = Some j"
    and p3: "names s' (FilePath size_handler) = Some (next_ino busy)"
    and p4: "inodes s' (next_ino busy) = \<lparr>content = [], modTime = now_unix busy\<rparr>"
    and p5: "sweeps s' = Suc (sweeps busy)"
    by blast+
  from p1 have n2: "names s' ''app.log.2024-03-05.002'' = Some 0"
    by (simp add: k2 rotated_name_def Sprintf_03d_2 size_handler_path d)
  have "names busy ''app.log.2024-03-05.001'' = Some 1" by (simp add: busy_def)
  with p2 have n1: "names s' ''app.log.2024-03-05.001'' = Some 1"
    by (simp add: size_handler_path)
  have nx: "next_ino busy = 2" "sweeps busy = 0" by (simp_all add: busy_def quiet_def)
  from p3 have n0: "names s' ''app.log'' = Some 2" by (simp add: size_handler_path nx)
  from p4 have c0: "content (inodes s' 2) = []" by (simp add: nx)
  from p5 have sw: "sweeps s' = 1" by (simp add: nx)
  have full: "DoRotate size_handler crowded =
     Returns (size_handler, crowded, Some (NoFreeLogNumber ''app.log''))"
    using DoRotate_free_name [OF crowded_live] crowded_taken
    by (simp only: if_True size_handler_path)
  from live run n1 n2 n0 c0 sw crowded_live full show ?thesis by blast
qed

section \<open>The decision to rotate\<close>

lemma initLogFile_policy: "policy (fst (initLogFile w s)) = policy w"
  by (simp add: initLogFile_def policy_def Let_def split: sum.splits)

lemma Init_policy:
  assumes "Init w s = Returns (w', s')"
  shows "policy w' = policy w"
proof -
  from assms obtain fd s1 where "initLogFile (w\<lparr>mw := SetLogFile (mw w) fd\<rparr>) s1 = (w', None)"
    by (auto simp: Init_def Let_def split: if_splits prod.splits sum.splits option.splits)
  then have "w' = fst (initLogFile (w\<lparr>mw := SetLogFile (mw w) fd\<rparr>) s1)" by simp
  then have "policy w' = policy (w\<lparr>mw := SetLogFile (mw w) fd\<rparr>)"
    by (simp add: initLogFile_policy)
  then show ?thesis by (simp add: policy_def)
qed

lemma DoRotate_policy: "DoRotate w s = Returns (w', s', err) \<Longrightarrow> policy w' = policy w"
proof -
  assume a: "DoRotate w s = Returns (w', s', err)"
  let ?w1 = "w\<lparr>mw := (mw w)\<lparr>logFile := File_Close (logFile (mw w))\<rparr>\<rparr>"
  have p1: "policy ?w1 = policy w" by (simp add: policy_def)
  from a consider "w' = w" | "w' = ?w1" | s1 s2 where "Init ?w1 s1 = Returns (w', s2)"
    by (auto simp: DoRotate_def Let_def split: sum.splits prod.splits bool.splits res.splits option.splits)
  then show ?thesis
    by cases (auto simp: p1 dest: Init_policy)
qed

lemma doCheckRotate_policy: "doCheckRotate w n s = Returns (w', s') \<Longrightarrow> policy w' = policy w"
proof -
  assume a: "doCheckRotate w n s = Returns (w', s')"
  then consider "w' = w\<lparr>curLines := curLines w + 1, curSize := curSize w + n\<rparr>"
    | w1 s1 err where "DoRotate w s = Returns (w1, s1, err)"
        "w' = w1 \<or> w' = w1\<lparr>curLines := curLines w1 + 1, curSize := curSize w1 + n\<rparr>"
    by (auto simp: doCheckRotate_def split: if_splits res.splits prod.splits option.splits)
  then show ?thesis
  proof cases
    case 1
    then show ?thesis by (simp add: policy_def)
  next
    case 2
    from DoRotate_policy [OF 2(1)] have "policy w1 = policy w" .
    with 2(2) show ?thesis by (auto simp: policy_def)
  qed
qed

lemma Write_policy: "Write w data s = Returns (w', s', n, err) \<Longrightarrow> policy w' = policy w"
  by (auto simp: Write_def Let_def split: res.splits prod.splits dest: doCheckRotate_policy)

lemma reach_policy: "reach w0 w \<Longrightarrow> policy w = policy w0"
  by (induction rule: reach.induct) (auto dest: Init_policy Write_policy)

lemma doCheckRotate_not_due:
  "\<not> rotate_due w s \<Longrightarrow>
   doCheckRotate w n s = Returns (w\<lparr>curLines := curLines w + 1, curSize := curSize w + n\<rparr>, s)"
  by (simp add: doCheckRotate_def)

lemma Write_quiet:
  "\<not> Debug s \<Longrightarrow> doCheckRotate w (int (length data)) s = Returns (w1, s1) \<Longrightarrow>
   Write w data s =
     (case File_Write (logFile (mw w1)) data s1 of
        ((n, err), s2) \<Rightarrow> Returns (w1, s2, int (length data), err))"
  by (simp add: Write_def MuxWriter_Write_def Let_def)

lemma busy_names: "names busy = [''app.log'' \<mapsto> 0, ''app.log.2024-03-05.001'' \<mapsto> 1]"
  by (simp add: busy_def)

lemma busy_fields:
  "next_ino busy = 2" "now_day busy = 5" "now_date busy = ''2024-03-05''" "now_unix busy = 1709640000"
  "open_fault busy = (\<lambda>p. None)" "stat_fault busy = (\<lambda>i. None)" "read_fault busy = (\<lambda>p. None)"
  "write_fault busy = (\<lambda>i. None)" "rename_fault busy = (\<lambda>p q. None)" "\<not> Debug busy"
  "stderr busy = []" "sweeps busy = 0" "content (inodes busy 0) = ''boot''"
  by (simp_all add: busy_def quiet_def)

lemma Init_small: "Init (NewSizeRotateHandler ''app.log'' 100) busy = Returns (small_handler, busy)"
proof -
  have "strings_Split ''boot'' (CHR 0x0A) = [''boot'']" by code_simp
  then show ?thesis
    by (simp add: Init_existing [where i = 0] NewSizeRotateHandler_def busy_names busy_fields
        small_handler_def size_handler_def)
qed

lemma reach_small: "reach (NewSizeRotateHandler ''app.log'' 100) small_handler"
  by (rule reach_Init [OF reach_new Init_small])

lemma find_free_next_day:
  "find_free ''app.log'' next_day 1 [] True = (''app.log.2024-03-06.001'', False)"
  by code_simp

lemma small_fields:
  "FilePath small_handler = ''app.log''" "curSize small_handler = 4" "MaxSize small_handler = 100"
  "curLines small_handler = 1" "openDate small_handler = 5" "MaxLines small_handler = 0"
  "Rotatable small_handler" "logFile (mw small_handler) = Some \<lparr>file_ino = 0, closed = False\<rparr>"
  by (simp_all add: small_handler_def size_handler_def NewSizeRotateHandler_def)

lemma next_day_fields:
  "names next_day = names busy" "inodes next_day = inodes busy" "next_ino next_day = 2"
  "now_day next_day = 6" "now_date next_day = ''2024-03-06''" "now_unix next_day = 1709726400"
  "open_fault next_day = (\<lambda>p. None)" "stat_fault next_day = (\<lambda>i. None)"
  "read_fault next_day = (\<lambda>p. None)"
  "write_fault next_day = (\<lambda>i. None)" "rename_fault next_day = (\<lambda>p q. None)" "\<not> Debug next_day"
  "stderr next_day = []" "sweeps next_day = 0"
  by (simp_all add: next_day_def busy_def quiet_def)

lemma DoRotate_next_day:
  "DoRotate small_handler next_day =
     Returns (small_handler\<lparr>mw := \<lparr>logFile = Some \<lparr>file_ino = 2, closed = False\<rparr>\<rparr>,
                curLines := 0, curSize := 0, openDate := 6\<rparr>,
              next_day\<lparr>names := [''app.log'' \<mapsto> 2, ''app.log.2024-03-05.001'' \<mapsto> 1,
                               ''app.log.2024-03-06.001'' \<mapsto> 0],
                   inodes := (inodes busy)(2 := \<lparr>content = [], modTime = 1709726400\<rparr>),
                   next_ino := 3, sweeps := 1\<rparr>, None)"
proof -
  have live: "names next_day (FilePath small_handler) = Some 0"
    by (simp add: small_fields next_day_fields busy_names)
  have ff: "find_free (FilePath small_handler) next_day 1 [] True = (''app.log.2024-03-06.001'', False)"
    by (simp add: small_fields find_free_next_day del: One_nat_def)
  have neq: "''app.log.2024-03-06.001'' \<noteq> FilePath small_handler" by (simp add: small_fields)
  have names': "(names busy)(''app.log'' := None, ''app.log.2024-03-06.001'' \<mapsto> 0, ''app.log'' \<mapsto> 2) =
     [''app.log'' \<mapsto> 2, ''app.log.2024-03-05.001'' \<mapsto> 1, ''app.log.2024-03-06.001'' \<mapsto> 0]"
    by (rule ext) (simp add: busy_names)
  show ?thesis
    by (simp add: DoRotate_found [OF live ff neq] next_day_fields small_fields Init_fresh names'
        File_Close_def)
qed

lemma find_free_first:
  "names s (rotated_name fp (now_date s) 1) = None \<Longrightarrow>
   find_free fp s 1 [] True = (rotated_name fp (now_date s) 1, False)"
proof -
  assume free: "names s (rotated_name fp (now_date s) 1) = None"
  have "find_free fp s 1 [] True =
        find_free fp s (Suc 1) (rotated_name fp (now_date s) 1)
          (names s (rotated_name fp (now_date s) 1) \<noteq> None)"
    by (rule find_free_step) simp
  also have "\<dots> = find_free fp s (Suc 1) (rotated_name fp (now_date s) 1) False"
    using free by simp
  also have "\<dots> = (rotated_name fp (now_date s) 1, False)"
    by (rule find_free_stop) simp
  finally show ?thesis .
qed

lemma DoRotate_first:
  assumes live: "names s (FilePath w) = Some i"
    and free: "names s (rotated_name (FilePath w) (now_date s) 1) = None"
    and path: "FilePath w \<noteq> []"
    and quiet: "rename_fault s (FilePath w) (rotated_name (FilePath w) (now_date s) 1) = None"
      "open_fault s (FilePath w) = None" "stat_fault s (next_ino s) = None"
  shows "DoRotate w s =
     Returns (w\<lparr>mw := (mw w)\<lparr>logFile := Some \<lparr>file_ino = next_ino s, closed = False\<rparr>\<rparr>,
                curSize := 0, openDate := now_day s, curLines := 0\<rparr>,
              s\<lparr>names := (names s)(FilePath w \<mapsto> next_ino s,
                                    rotated_name (FilePath w) (now_date s) 1 \<mapsto> i),
                inodes := (inodes s)(next_ino s := \<lparr>content = [], modTime = now_unix s\<rparr>),
                next_ino := Suc (next_ino s),
                sweeps := Suc (sweeps s)\<rparr>, None)"
proof -
  let ?f = "rotated_name (FilePath w) (now_date s) 1"
  have neq: "?f \<noteq> FilePath w" by (rule rotated_name_neq)
  show ?thesis
    using neq quiet path
    by (simp add: DoRotate_found [OF live find_free_first [OF free] neq] Init_fresh File_Close_def
        fun_upd_twist)
qed

text \<open>
  Claim C1, as amended. A handler made by \<^verbatim>\<open>NewSizeRotateHandler\<close> with a positive
  threshold \<open>S\<close> stays in the size mode whatever calls it has returned from, and a write
  starts a rotation exactly when the byte counter has reached \<open>S\<close> or the day of the month
  is not the one recorded when the file was opened. When neither holds the check only
  counts the write. When one holds the check is \<^verbatim>\<open>DoRotate\<close>: its panic, or its error
  printed with nothing counted, or its new handler with the write counted; and where the
  live file exists, the first name of the day is free and no call fails, the live file
  has been renamed to that name and a new one opened, with this write counted on it.
\<close>

theorem size_mode_rotate_due:
  assumes "0 < S" and "reach (NewSizeRotateHandler fp S) w"
  shows "(rotate_due w s \<longleftrightarrow> S \<le> curSize w \<or> now_day s \<noteq> openDate w) \<and>
         (\<not> (S \<le> curSize w \<or> now_day s \<noteq> openDate w) \<longrightarrow>
            doCheckRotate w n s =
              Returns (w\<lparr>curLines := curLines w + 1, curSize := curSize w + n\<rparr>, s)) \<and>
         (S \<le> curSize w \<or> now_day s \<noteq> openDate w \<longrightarrow>
            doCheckRotate w n s =
              (case DoRotate w s of
                 Panics e \<Rightarrow> Panics e
               | Returns (w1, s1, Some err) \<Rightarrow>
                   Returns (w1, s1\<lparr>stderr := stderr s1 @ [(FilePath w1, err)]\<rparr>)
               | Returns (w1, s1, None) \<Rightarrow>
                   Returns (w1\<lparr>curLines := curLines w1 + 1, curSize := curSize w1 + n\<rparr>, s1))) \<and>
         ((S \<le> curSize w \<or> now_day s \<noteq> openDate w) \<and>
          fp \<noteq> [] \<and> names s fp = Some i \<and> names s (rotated_name fp (now_date s) 1) = None \<and>
          rename_fault s fp (rotated_name fp (now_date s) 1) = None \<and>
          open_fault s fp = None \<and> stat_fault s (next_ino s) = None \<longrightarrow>
            doCheckRotate w n s =
              Returns (w\<lparr>mw := (mw w)\<lparr>logFile := Some \<lparr>file_ino = next_ino s, closed = False\<rparr>\<rparr>,
                         curSize := n, openDate := now_day s, curLines := 1\<rparr>,
                       s\<lparr>names := (names s)(fp \<mapsto> next_ino s,
                                             rotated_name fp (now_date s) 1 \<mapsto> i),
                         inodes := (inodes s)(next_ino s := \<lparr>content = [], modTime = now_unix s\<rparr>),
                         next_ino := Suc (next_ino s),
                         sweeps := Suc (sweeps s)\<rparr>))"
proof -
  from reach_policy [OF assms(2)]
  have pol: "MaxLines w = 0" "MaxSize w = S" "Rotatable w" "FilePath w = fp"
    by (simp_all add: policy_def NewSizeRotateHandler_def)
  with assms(1) have due: "rotate_due w s \<longleftrightarrow> S \<le> curSize w \<or> now_day s \<noteq> openDate w"
    by (simp add: rotate_due_def)
  have idle: "\<not> (S \<le> curSize w \<or> now_day s \<noteq> openDate w) \<longrightarrow>
            doCheckRotate w n s =
              Returns (w\<lparr>curLines := curLines w + 1, curSize := curSize w + n\<rparr>, s)"
    using due by (simp add: doCheckRotate_not_due)
  have rot: "S \<le> curSize w \<or> now_day s \<noteq> openDate w \<longrightarrow>
            doCheckRotate w n s =
              (case DoRotate w s of
                 Panics e \<Rightarrow> Panics e
               | Returns (w1, s1, Some err) \<Rightarrow>
                   Returns (w1, s1\<lparr>stderr := stderr s1 @ [(FilePath w1, err)]\<rparr>)
               | Returns (w1, s1, None) \<Rightarrow>
                   Returns (w1\<lparr>curLines := curLines w1 + 1, curSize := curSize w1 + n\<rparr>, s1))"
    using due by (simp add: doCheckRotate_def)
  have seen: "(S \<le> curSize w \<or> now_day s \<noteq> openDate w) \<and>
          fp \<noteq> [] \<and> names s fp = Some i \<and> names s (rotated_name fp (now_date s) 1) = None \<and>
          rename_fault s fp (rotated_name fp (now_date s) 1) = None \<and>
          open_fault s fp = None \<and> stat_fault s (next_ino s) = None \<longrightarrow>
            doCheckRotate w n s =
              Returns (w\<lparr>mw := (mw w)\<lparr>logFile := Some \<lparr>file_ino = next_ino s, closed = False\<rparr>\<rparr>,
                         curSize := n, openDate := now_day s, curLines := 1\<rparr>,
                       s\<lparr>names := (names s)(fp \<mapsto> next_ino s,
                                             rotated_name fp (now_date s) 1 \<mapsto> i),
                         inodes := (inodes s)(next_ino s := \<lparr>content = [], modTime = now_unix s\<rparr>),
                         next_ino := Suc (next_ino s),
                         sweeps := Suc (sweeps s)\<rparr>)"
  proof
    assume a: "(S \<le> curSize w \<or> now_day s \<noteq> openDate w) \<and>
          fp \<noteq> [] \<and> names s fp = Some i \<and> names s (rotated_name fp (now_date s) 1) = None \<and>
          rename_fault s fp (rotated_name fp (now_date s) 1) = None \<and>
          open_fault s fp = None \<and> stat_fault s (next_ino s) = None"
    then have d: "rotate_due w s" using due by simp
    from a have "DoRotate w s =
       Returns (w\<lparr>mw := (mw w)\<lparr>logFile := Some \<lparr>file_ino = next_ino s, closed = False\<rparr>\<rparr>,
                curSize := 0, openDate := now_day s, curLines := 0\<rparr>,
              s\<lparr>names := (names s)(FilePath w \<mapsto> next_ino s,
                                    rotated_name (FilePath w) (now_date s) 1 \<mapsto> i),
                inodes := (inodes s)(next_ino s := \<lparr>content = [], modTime = now_unix s\<rparr>),
                next_ino := Suc (next_ino s),
                sweeps := Suc (sweeps s)\<rparr>, None)"
      by (intro DoRotate_first) (simp_all add: pol)
    with d show "doCheckRotate w n s =
              Returns (w\<lparr>mw := (mw w)\<lparr>logFile := Some \<lparr>file_ino = next_ino s, closed = False\<rparr>\<rparr>,
                         curSize := n, openDate := now_day s, curLines := 1\<rparr>,
                       s\<lparr>names := (names s)(fp \<mapsto> next_ino s,
                                             rotated_name fp (now_date s) 1 \<mapsto> i),
                         inodes := (inodes s)(next_ino s := \<lparr>content = [], modTime = now_unix s\<rparr>),
                         next_ino := Suc (next_ino s),
                         sweeps := Suc (sweeps s)\<rparr>)"
      by (simp add: doCheckRotate_def pol)
  qed
  from due idle rot seen show ?thesis by (intro conjI)
qed

theorem size_mode_rotate_due_witness:
  "(0::int) < 100 \<and> reach (NewSizeRotateHandler ''app.log'' 100) small_handler \<and>
   rotate_due small_handler next_day \<and> \<not> rotate_due small_handler busy \<and>
   doCheckRotate small_handler 1 busy =
     Returns (small_handler\<lparr>curLines := 2, curSize := 5\<rparr>, busy) \<and>
   doCheckRotate small_handler 1 next_day =
     Returns (small_handler\<lparr>mw := \<lparr>logFile = Some \<lparr>file_ino = 2, closed = False\<rparr>\<rparr>,
                curLines := 1, curSize := 1, openDate := 6\<rparr>,
              next_day\<lparr>names := (names busy)(''app.log'' \<mapsto> 2, ''app.log.2024-03-06.001'' \<mapsto> 0),
                   inodes := (inodes busy)(2 := \<lparr>content = [], modTime = 1709726400\<rparr>),
                   next_ino := 3, sweeps := 1\<rparr>)"
proof -
  have h: "(0::int) < 100" by simp
  note t1 = size_mode_rotate_due [OF h reach_small, of next_day 1 0]
  note t2 = size_mode_rotate_due [OF h reach_small, of busy 1 0]
  have name1: "rotated_name ''app.log'' ''2024-03-06'' 1 = ''app.log.2024-03-06.001''"
    by (simp add: rotated_name_def Sprintf_03d_1 del: One_nat_def)
  have cond: "(100 \<le> curSize small_handler \<or> now_day next_day \<noteq> openDate small_handler) \<and>
          ''app.log'' \<noteq> [] \<and> names next_day ''app.log'' = Some 0 \<and>
          names next_day (rotated_name ''app.log'' (now_date next_day) 1) = None \<and>
          rename_fault next_day ''app.log'' (rotated_name ''app.log'' (now_date next_day) 1) = None \<and>
          open_fault next_day ''app.log'' = None \<and> stat_fault next_day (next_ino next_day) = None"
    by (simp add: small_fields next_day_fields busy_names name1 del: One_nat_def)
  from t1 cond have a: "doCheckRotate small_handler 1 next_day =
     Returns (small_handler\<lparr>mw := (mw small_handler)\<lparr>logFile := Some \<lparr>file_ino = next_ino next_day, closed = False\<rparr>\<rparr>,
                         curSize := 1, openDate := now_day next_day, curLines := 1\<rparr>,
                       next_day\<lparr>names := (names next_day)(''app.log'' \<mapsto> next_ino next_day,
                                             rotated_name ''app.log'' (now_date next_day) 1 \<mapsto> 0),
                         inodes := (inodes next_day)(next_ino next_day := \<lparr>content = [], modTime = now_unix next_day\<rparr>),
                         next_ino := Suc (next_ino next_day),
                         sweeps := Suc (sweeps next_day)\<rparr>)"
    by blast
  have a': "doCheckRotate small_handler 1 next_day =
     Returns (small_handler\<lparr>mw := \<lparr>logFile = Some \<lparr>file_ino = 2, closed = False\<rparr>\<rparr>,
                curLines := 1, curSize := 1, openDate := 6\<rparr>,
              next_day\<lparr>names := (names busy)(''app.log'' \<mapsto> 2, ''app.log.2024-03-06.001'' \<mapsto> 0),
                   inodes := (inodes busy)(2 := \<lparr>content = [], modTime = 1709726400\<rparr>),
                   next_ino := 3, sweeps := 1\<rparr>)"
    unfolding a by (simp add: next_day_fields name1 small_handler_def size_handler_def
        NewSizeRotateHandler_def del: One_nat_def)
  from t1 have b: "rotate_due small_handler next_day"
    by (simp add: small_fields next_day_fields)
  from t2 have c: "\<not> rotate_due small_handler busy"
    "doCheckRotate small_handler 1 busy = Returns (small_handler\<lparr>curLines := 2, curSize := 5\<rparr>, busy)"
    by (simp_all add: small_fields busy_fields)
  from h reach_small a' b c show ?thesis by simp
qed

text \<open>
  Claim C1 as it is stated does not hold: a handler of the size mode whose counter (4) is
  below its threshold (100) rotates on the first write of the next day.
\<close>

theorem size_mode_day_change_rotates:
  "reach (NewSizeRotateHandler ''app.log'' 100) small_handler \<and>
   curSize small_handler < 100 \<and>
   rotate_due small_handler next_day \<and>
   Write small_handler ''x'' next_day =
     Returns (small_handler\<lparr>mw := \<lparr>logFile = Some \<lparr>file_ino = 2, closed = False\<rparr>\<rparr>,
                curLines := 1, curSize := 1, openDate := 6\<rparr>,
              next_day\<lparr>names := [''app.log'' \<mapsto> 2, ''app.log.2024-03-05.001'' \<mapsto> 1,
                               ''app.log.2024-03-06.001'' \<mapsto> 0],
                   inodes := (inodes busy)(2 := \<lparr>content = ''x'', modTime = 1709726400\<rparr>),
                   next_ino := 3, sweeps := 1\<rparr>, 1, None)"
proof -
  have due: "rotate_due small_handler next_day"
    by (simp add: rotate_due_def small_fields next_day_fields)
  have chk: "doCheckRotate small_handler (int (length ''x'')) next_day =
     Returns (small_handler\<lparr>mw := \<lparr>logFile = Some \<lparr>file_ino = 2, closed = False\<rparr>\<rparr>,
                curLines := 1, curSize := 1, openDate := 6\<rparr>,
              next_day\<lparr>names := [''app.log'' \<mapsto> 2, ''app.log.2024-03-05.001'' \<mapsto> 1,
                               ''app.log.2024-03-06.001'' \<mapsto> 0],
                   inodes := (inodes busy)(2 := \<lparr>content = [], modTime = 1709726400\<rparr>),
                   next_ino := 3, sweeps := 1\<rparr>)"
    by (simp add: doCheckRotate_def due DoRotate_next_day)
  have wr: "Write small_handler ''x'' next_day = Returns (small_handler\<lparr>mw := \<lparr>logFile = Some \<lparr>file_ino = 2, closed = False\<rparr>\<rparr>,
                curLines := 1, curSize := 1, openDate := 6\<rparr>,
              next_day\<lparr>names := [''app.log'' \<mapsto> 2, ''app.log.2024-03-05.001'' \<mapsto> 1,
                               ''app.log.2024-03-06.001'' \<mapsto> 0],
                   inodes := (inodes busy)(2 := \<lparr>content = ''x'', modTime = 1709726400\<rparr>),
                   next_ino := 3, sweeps := 1\<rparr>, 1, None)"
    by (simp add: Write_quiet [OF _ chk] next_day_fields File_Write_def Let_def)
  from reach_small due wr show ?thesis by (simp add: small_fields)
qed

section \<open>Writing\<close>

lemma length_split_at: "length (split_at c acc s) = Suc (count_list s c)"
  by (induction s arbitrary: acc) simp_all

lemma length_strings_Split: "length (strings_Split s c) = Suc (count_list s c)"
  by (simp add: strings_Split_def length_split_at)

lemma busy_inode0: "inodes busy 0 = \<lparr>content = ''boot'', modTime = 1709630000\<rparr>"
  by (simp add: busy_def)

lemma size_fields:
  "FilePath size_handler = ''app.log''" "curSize size_handler = 4" "MaxSize size_handler = 4"
  "curLines size_handler = 1" "openDate size_handler = 5" "MaxLines size_handler = 0"
  "Rotatable size_handler" "logFile (mw size_handler) = Some \<lparr>file_ino = 0, closed = False\<rparr>"
  by (simp_all add: size_handler_def NewSizeRotateHandler_def)

lemma crowded_fields:
  "inodes crowded = inodes busy" "now_day crowded = 5" "now_unix crowded = 1709640000"
  "write_fault crowded = (\<lambda>i. None)" "\<not> Debug crowded" "stderr crowded = []"
  by (simp_all add: crowded_def busy_def quiet_def)

lemma DoRotate_crowded:
  "DoRotate size_handler crowded =
     Returns (size_handler, crowded, Some (NoFreeLogNumber ''app.log''))"
proof -
  have "snd (find_free (FilePath size_handler) crowded 1 [] True)"
    using crowded_taken by (intro find_free_all_taken) simp
  from DoRotate_exhausted [OF crowded_live this] show ?thesis by (simp add: size_fields)
qed

lemma doCheckRotate_failed:
  "rotate_due w s \<Longrightarrow> DoRotate w s = Returns (w1, s1, Some err) \<Longrightarrow>
   doCheckRotate w n s = Returns (w1, s1\<lparr>stderr := stderr s1 @ [(FilePath w1, err)]\<rparr>)"
  by (simp add: doCheckRotate_def)

lemma File_Write_closed:
  "fd \<noteq> None \<Longrightarrow> File_Write (File_Close fd) b s = ((0, Some ErrClosed), s)"
  by (cases fd) (simp_all add: File_Write_def File_Close_def)

text \<open>
  The failed rename in general: whenever a write is due to rotate, a free name is found
  and the rename fails, the write returns \<^verbatim>\<open>ErrClosed\<close> and the world is as before but
  for the line on the error stream.
\<close>

lemma Write_after_failed_rename:
  assumes quiet: "\<not> Debug s" and due: "rotate_due w s"
    and live: "names s (FilePath w) = Some i"
    and found: "find_free (FilePath w) s 1 [] True = (f, False)"
    and fails: "rename_fault s (FilePath w) f = Some e"
    and opened: "logFile (mw w) \<noteq> None"
  shows "Write w data s =
     Returns (w\<lparr>mw := (mw w)\<lparr>logFile := File_Close (logFile (mw w))\<rparr>\<rparr>,
              s\<lparr>stderr := stderr s @ [(FilePath w, RotateError e)]\<rparr>,
              int (length data), Some ErrClosed)"
proof -
  from find_free_found [OF found] have neq: "f \<noteq> FilePath w"
    by (auto simp: rotated_name_neq)
  have rot: "DoRotate w s =
      Returns (w\<lparr>mw := (mw w)\<lparr>logFile := File_Close (logFile (mw w))\<rparr>\<rparr>, s, Some (RotateError e))"
    by (simp add: DoRotate_found [OF live found neq] fails)
  have chk: "doCheckRotate w (int (length data)) s =
      Returns (w\<lparr>mw := (mw w)\<lparr>logFile := File_Close (logFile (mw w))\<rparr>\<rparr>,
               s\<lparr>stderr := stderr s @ [(FilePath w, RotateError e)]\<rparr>)"
    using doCheckRotate_failed [OF due rot] by simp
  have wr: "File_Write (File_Close (logFile (mw w))) data
              (s\<lparr>stderr := stderr s @ [(FilePath w, RotateError e)]\<rparr>) =
            ((0, Some ErrClosed), s\<lparr>stderr := stderr s @ [(FilePath w, RotateError e)]\<rparr>)"
    by (rule File_Write_closed [OF opened])
  show ?thesis
    by (simp add: Write_quiet [OF quiet chk] wr)
qed

text \<open>
  The exhausted names in general: whenever a write is due to rotate and the 999 names
  are taken, the handler comes back with its counters as they were, and the payload has
  been written all the same.
\<close>

lemma Write_after_exhaustion:
  assumes quiet: "\<not> Debug s" and due: "rotate_due w s"
    and live: "names s (FilePath w) = Some i"
    and taken: "\<forall>k. 1 \<le> k \<and> k \<le> 999 \<longrightarrow> names s (rotated_name (FilePath w) (now_date s) k) \<noteq> None"
  shows "Write w data s =
     (case File_Write (logFile (mw w)) data
             (s\<lparr>stderr := stderr s @ [(FilePath w, NoFreeLogNumber (FilePath w))]\<rparr>) of
        ((k, err), s2) \<Rightarrow> Returns (w, s2, int (length data), err))"
proof -
  have "snd (find_free (FilePath w) s 1 [] True)"
    using taken by (intro find_free_all_taken) simp
  from DoRotate_exhausted [OF live this]
  have rot: "DoRotate w s = Returns (w, s, Some (NoFreeLogNumber (FilePath w)))" .
  from doCheckRotate_failed [OF due rot]
  have chk: "doCheckRotate w (int (length data)) s =
      Returns (w, s\<lparr>stderr := stderr s @ [(FilePath w, NoFreeLogNumber (FilePath w))]\<rparr>)" .
  show ?thesis by (simp add: Write_quiet [OF quiet chk])
qed

text \<open>
  Claim C4 says that every write adds one to the line counter and the length of its
  payload to the byte counter. The code returns from \<^verbatim>\<open>doCheckRotate\<close> before the two
  additions when the rotation fails, and \<^verbatim>\<open>Write\<close> goes on to write all the same. Here
  the 999 names of the day are taken: the byte \<open>x\<close> is appended to the file, which now
  has five bytes, no error is returned, and the handler comes back as it was, with one
  line and four bytes counted.
\<close>

theorem Write_uncounted_when_names_exhausted:
  "rotate_due size_handler crowded \<and>
   Write size_handler ''x'' crowded =
     Returns (size_handler,
              crowded\<lparr>inodes := (inodes crowded)(0 := \<lparr>content = ''bootx'', modTime = 1709640000\<rparr>),
                      stderr := [(''app.log'', NoFreeLogNumber ''app.log'')]\<rparr>,
              1, None) \<and>
   curLines size_handler = 1 \<and> curSize size_handler = 4"
proof -
  have due: "rotate_due size_handler crowded"
    by (simp add: rotate_due_def size_fields)
  have chk: "doCheckRotate size_handler (int (length ''x'')) crowded =
      Returns (size_handler, crowded\<lparr>stderr := [(''app.log'', NoFreeLogNumber ''app.log'')]\<rparr>)"
    by (simp add: doCheckRotate_def due DoRotate_crowded size_fields crowded_fields)
  have "Write size_handler ''x'' crowded =
     Returns (size_handler,
              crowded\<lparr>inodes := (inodes crowded)(0 := \<lparr>content = ''bootx'', modTime = 1709640000\<rparr>),
                      stderr := [(''app.log'', NoFreeLogNumber ''app.log'')]\<rparr>,
              1, None)"
    by (simp add: Write_quiet [OF _ chk] crowded_fields size_fields File_Write_def Let_def busy_inode0)
  with due show ?thesis by (simp add: size_fields)
qed

lemma stuck_fields:
  "names stuck = names busy" "inodes stuck = inodes busy" "now_day stuck = 5"
  "rename_fault stuck = (\<lambda>p q. Some (OsError ''permission denied''))"
  "\<not> Debug stuck" "stderr stuck = []"
  by (simp_all add: stuck_def busy_def quiet_def)

lemma find_free_stuck:
  "find_free ''app.log'' stuck 1 [] True = (''app.log.2024-03-05.002'', False)"
  by code_simp

lemma DoRotate_stuck:
  "DoRotate size_handler stuck =
     Returns (size_handler\<lparr>mw := \<lparr>logFile = Some \<lparr>file_ino = 0, closed = True\<rparr>\<rparr>\<rparr>, stuck,
              Some (RotateError (OsError ''permission denied'')))"
proof -
  have live: "names stuck (FilePath size_handler) = Some 0"
    by (simp add: size_fields stuck_fields busy_names)
  have ff: "find_free (FilePath size_handler) stuck 1 [] True = (''app.log.2024-03-05.002'', False)"
    by (simp add: size_fields find_free_stuck del: One_nat_def)
  have neq: "''app.log.2024-03-05.002'' \<noteq> FilePath size_handler" by (simp add: size_fields)
  show ?thesis
    by (simp add: DoRotate_found [OF live ff neq] stuck_fields size_fields File_Close_def)
qed

text \<open>
  Claim C2 says that the write that met a failed rotation goes to the file that was open
  before. \<^verbatim>\<open>DoRotate\<close> closes that file before it renames, so when the rename fails the
  file is closed: the write returns \<^verbatim>\<open>ErrClosed\<close> to its caller and the payload
  is written nowhere.
\<close>

theorem Write_dropped_when_rename_fails:
  "logFile (mw size_handler) = Some \<lparr>file_ino = 0, closed = False\<rparr> \<and>
   rotate_due size_handler stuck \<and>
   Write size_handler ''x'' stuck =
     Returns (size_handler\<lparr>mw := \<lparr>logFile = Some \<lparr>file_ino = 0, closed = True\<rparr>\<rparr>\<rparr>,
              stuck\<lparr>stderr := [(''app.log'', RotateError (OsError ''permission denied''))]\<rparr>,
              1, Some ErrClosed) \<and>
   content (inodes stuck 0) = ''boot''"
proof -
  have due: "rotate_due size_handler stuck"
    by (simp add: rotate_due_def size_fields)
  have chk: "doCheckRotate size_handler (int (length ''x'')) stuck =
      Returns (size_handler\<lparr>mw := \<lparr>logFile = Some \<lparr>file_ino = 0, closed = True\<rparr>\<rparr>\<rparr>,
               stuck\<lparr>stderr := [(''app.log'', RotateError (OsError ''permission denied''))]\<rparr>)"
    by (simp add: doCheckRotate_def due DoRotate_stuck size_fields stuck_fields)
  have "Write size_handler ''x'' stuck =
     Returns (size_handler\<lparr>mw := \<lparr>logFile = Some \<lparr>file_ino = 0, closed = True\<rparr>\<rparr>\<rparr>,
              stuck\<lparr>stderr := [(''app.log'', RotateError (OsError ''permission denied''))]\<rparr>,
              1, Some ErrClosed)"
    by (simp add: Write_quiet [OF _ chk] stuck_fields File_Write_def)
  with due show ?thesis by (simp add: size_fields stuck_fields busy_fields)
qed

text \<open>
  Claim C3 says that the line counter is seeded with the number of line feeds in the file.
  \<^verbatim>\<open>initLogFile\<close> takes the number of pieces \<^verbatim>\<open>strings.Split\<close> returns, which is one
  more: a file of two lines, four bytes and two line feeds is seeded with three lines
  (and four bytes, as the claim says).
\<close>

theorem Init_counts_one_line_too_many:
  "Init (NewLinesRotateHandler ''app.log'' 10) two_lines =
     Returns ((NewLinesRotateHandler ''app.log'' 10)
                \<lparr>mw := \<lparr>logFile = Some \<lparr>file_ino = 0, closed = False\<rparr>\<rparr>,
                 curLines := 3, curSize := 4, openDate := 5\<rparr>, two_lines) \<and>
   content (inodes two_lines 0) = ''a\<newline>b\<newline>'' \<and>
   count_list (content (inodes two_lines 0)) (CHR 0x0A) = 2"
proof -
  have sp: "strings_Split ''a\<newline>b\<newline>'' (CHR 0x0A) = [''a'', ''b'', []]" by code_simp
  have "Init (NewLinesRotateHandler ''app.log'' 10) two_lines =
     Returns ((NewLinesRotateHandler ''app.log'' 10)
                \<lparr>mw := \<lparr>logFile = Some \<lparr>file_ino = 0, closed = False\<rparr>\<rparr>,
                 curLines := 3, curSize := 4, openDate := 5\<rparr>, two_lines)"
    by (simp add: Init_existing [where i = 0] NewLinesRotateHandler_def two_lines_def quiet_def sp)
  then show ?thesis by (simp add: two_lines_def)
qed

lemma disk_full_fields:
  "inodes disk_full = inodes busy" "now_day disk_full = 5" "now_unix disk_full = 1709640000"
  "write_fault disk_full = (\<lambda>i. Some (0, OsError ''no space left on device''))"
  "\<not> Debug disk_full"
  by (simp_all add: disk_full_def busy_def quiet_def)

text \<open>
  Claim C8 as it is stated does not hold: when the disk is full and no byte is written,
  \<^verbatim>\<open>Write\<close> still returns the length of the payload, here 5, with the error.
\<close>

theorem Write_count_when_nothing_written:
  "Write small_handler ''hello'' disk_full =
     Returns (small_handler\<lparr>curLines := 2, curSize := 9\<rparr>,
              disk_full\<lparr>inodes := (inodes disk_full)(0 := \<lparr>content = ''boot'', modTime = 1709640000\<rparr>)\<rparr>,
              5, Some (OsError ''no space left on device'')) \<and>
   content (inodes disk_full 0) = ''boot''"
proof -
  have "\<not> rotate_due small_handler disk_full"
    by (simp add: rotate_due_def small_fields disk_full_fields)
  then have chk: "doCheckRotate small_handler (int (length ''hello'')) disk_full =
      Returns (small_handler\<lparr>curLines := 2, curSize := 9\<rparr>, disk_full)"
    by (simp add: doCheckRotate_not_due small_fields)
  have "Write small_handler ''hello'' disk_full =
     Returns (small_handler\<lparr>curLines := 2, curSize := 9\<rparr>,
              disk_full\<lparr>inodes := (inodes disk_full)(0 := \<lparr>content = ''boot'', modTime = 1709640000\<rparr>)\<rparr>,
              5, Some (OsError ''no space left on device''))"
    by (simp add: Write_quiet [OF _ chk] disk_full_fields small_fields File_Write_def Let_def busy_inode0)
  then show ?thesis by (simp add: disk_full_fields busy_fields)
qed

text \<open>
  Claim C8, as amended. When \<^verbatim>\<open>Write\<close> returns, its count is the length of the
  payload, whatever was written; the file is written once, after the check for rotation,
  and the error of that one write is the error returned. The bytes that reached the open
  file are the first \<open>k\<close> of the payload, where \<open>k\<close> is at most the count returned and is
  equal to it when there is no error.
\<close>

theorem Write_returns_length_and_error:
  assumes "Write w data s = Returns (w', s', n, err)"
  shows "n = int (length data) \<and>
     (\<exists>s1 k. doCheckRotate w (int (length data)) (if Debug s then s\<lparr>stdout := stdout s @ [data]\<rparr> else s)
              = Returns (w', s1) \<and>
        File_Write (logFile (mw w')) data s1 = ((k, err), s') \<and>
        0 \<le> k \<and> k \<le> n \<and> (err = None \<longrightarrow> k = n) \<and>
        (\<forall>f. logFile (mw w') = Some f \<and> \<not> closed f \<longrightarrow>
           content (inodes s' (file_ino f)) = content (inodes s1 (file_ino f)) @ take (nat k) data))"
proof -
  let ?s0 = "if Debug s then s\<lparr>stdout := stdout s @ [data]\<rparr> else s"
  from assms obtain s1 k where chk: "doCheckRotate w (int (length data)) ?s0 = Returns (w', s1)"
    and wr: "File_Write (logFile (mw w')) data s1 = ((k, err), s')" and n: "n = int (length data)"
    by (auto simp: Write_def MuxWriter_Write_def Let_def split: res.splits prod.splits)
  have bounds: "0 \<le> k \<and> k \<le> n \<and> (err = None \<longrightarrow> k = n)"
    using wr n by (auto simp: File_Write_def Let_def split: option.splits if_splits)
  have grow: "\<forall>f. logFile (mw w') = Some f \<and> \<not> closed f \<longrightarrow>
           content (inodes s' (file_ino f)) = content (inodes s1 (file_ino f)) @ take (nat k) data"
    using wr by (auto simp: File_Write_def Let_def min_def split: option.splits if_splits)
  from chk wr n bounds grow show ?thesis by blast
qed


theorem Write_returns_length_and_error_witness:
  "Write small_handler ''hello'' busy =
     Returns (small_handler\<lparr>curLines := 2, curSize := 9\<rparr>,
              busy\<lparr>inodes := (inodes busy)(0 := \<lparr>content = ''boothello'', modTime = 1709640000\<rparr>)\<rparr>,
              5, None) \<and>
   (\<exists>s1. File_Write (logFile (mw (small_handler\<lparr>curLines := 2, curSize := 9\<rparr>))) ''hello'' s1 =
      ((5, None),
       busy\<lparr>inodes := (inodes busy)(0 := \<lparr>content = ''boothello'', modTime = 1709640000\<rparr>)\<rparr>))"
proof -
  let ?w' = "small_handler\<lparr>curLines := 2, curSize := 9\<rparr>"
  let ?s' = "busy\<lparr>inodes := (inodes busy)(0 := \<lparr>content = ''boothello'', modTime = 1709640000\<rparr>)\<rparr>"
  have "\<not> rotate_due small_handler busy"
    by (simp add: rotate_due_def small_fields busy_fields)
  then have chk: "doCheckRotate small_handler (int (length ''hello'')) busy = Returns (?w', busy)"
    by (simp add: doCheckRotate_not_due small_fields)
  have run: "Write small_handler ''hello'' busy = Returns (?w', ?s', 5, None)"
    by (simp add: Write_quiet [OF _ chk] busy_fields small_fields File_Write_def Let_def busy_inode0)
  from Write_returns_length_and_error [OF run] obtain s1 k where
    wr: "File_Write (logFile (mw ?w')) ''hello'' s1 = ((k, None), ?s')"
    and k: "None = (None :: error option) \<longrightarrow> k = 5"
    by blast
  from k have "k = 5" by simp
  with wr have "\<exists>s1. File_Write (logFile (mw ?w')) ''hello'' s1 = ((5, None), ?s')" by blast
  with run show ?thesis by (rule conjI)
qed

section \<open>The retention sweep: what it removes\<close>

lemma int64_id: "is_int64 x \<Longrightarrow> int64 x = x"
  by (simp add: int64_def is_int64_def)

lemma fn_sw_now: "sw_now (fst (deleteOldLog_fn w p info err e)) = sw_now e"
  by (simp add: deleteOldLog_fn_def os_Remove_def split: option.splits)

lemma fn_frame:
  "deleteOldLog_fn w p info err \<lparr>sw_now = now, remove_fault = f, removed = r\<rparr> =
     (\<lparr>sw_now = now, remove_fault = f,
        removed = r @ filter (\<lambda>q. f q = None) (removed (fst (deleteOldLog_fn w p info err (clean now))))\<rparr>,
      snd (deleteOldLog_fn w p info err (clean now)))"
  by (simp add: deleteOldLog_fn_def os_Remove_def clean_def split: option.splits)

lemma framedD:
  "framed run \<Longrightarrow> run \<lparr>sw_now = now, remove_fault = f, removed = r\<rparr> =
        (\<lparr>sw_now = now, remove_fault = f,
           removed = r @ filter (\<lambda>q. f q = None) (removed (fst (run (clean now))))\<rparr>,
         snd (run (clean now)))"
  by (simp add: framed_def)

lemma framed_clean:
  "framed run \<Longrightarrow> run \<lparr>sw_now = now, remove_fault = (\<lambda>p. None), removed = r\<rparr> =
        (\<lparr>sw_now = now, remove_fault = (\<lambda>p. None), removed = r @ removed (fst (run (clean now)))\<rparr>,
         snd (run (clean now)))"
  by (simp add: framedD)

lemma framed_fn: "framed (deleteOldLog_fn w p info err)"
  unfolding framed_def using fn_frame by blast

lemma framed_return: "framed (\<lambda>e. (e, None))"
  by (simp add: framed_def clean_def)

lemma framed_seq:
  assumes "framed run1" and "framed run2"
  shows "framed (\<lambda>e. case run1 e of (e1, err) \<Rightarrow> if stop err then (e1, err) else run2 e1)"
  unfolding framed_def
proof (intro allI)
  fix now f r
  define X1 where "X1 = removed (fst (run1 (clean now)))"
  define err1 where "err1 = snd (run1 (clean now))"
  define X2 where "X2 = removed (fst (run2 (clean now)))"
  define err2 where "err2 = snd (run2 (clean now))"
  have r1: "run1 \<lparr>sw_now = now, remove_fault = g, removed = q\<rparr> =
       (\<lparr>sw_now = now, remove_fault = g, removed = q @ filter (\<lambda>q. g q = None) X1\<rparr>, err1)" for g q
    unfolding X1_def err1_def by (rule framedD [OF assms(1)])
  have r2: "run2 \<lparr>sw_now = now, remove_fault = g, removed = q\<rparr> =
       (\<lparr>sw_now = now, remove_fault = g, removed = q @ filter (\<lambda>q. g q = None) X2\<rparr>, err2)" for g q
    unfolding X2_def err2_def by (rule framedD [OF assms(2)])
  have c1: "run1 (clean now) = (\<lparr>sw_now = now, remove_fault = (\<lambda>p. None), removed = X1\<rparr>, err1)"
    using r1 [of "\<lambda>p. None" "[]"] unfolding clean_def by simp
  have lhs: "(case run1 \<lparr>sw_now = now, remove_fault = f, removed = r\<rparr> of
          (e1, err) \<Rightarrow> if stop err then (e1, err) else run2 e1) =
        (if stop err1
         then (\<lparr>sw_now = now, remove_fault = f, removed = r @ filter (\<lambda>q. f q = None) X1\<rparr>, err1)
         else (\<lparr>sw_now = now, remove_fault = f,
                 removed = r @ filter (\<lambda>q. f q = None) X1 @ filter (\<lambda>q. f q = None) X2\<rparr>, err2))"
    unfolding r1 prod.case r2 by simp
  have rhs: "(case run1 (clean now) of (e1, err) \<Rightarrow> if stop err then (e1, err) else run2 e1) =
        (if stop err1
         then (\<lparr>sw_now = now, remove_fault = (\<lambda>p. None), removed = X1\<rparr>, err1)
         else (\<lparr>sw_now = now, remove_fault = (\<lambda>p. None), removed = X1 @ X2\<rparr>, err2))"
    unfolding c1 prod.case r2 by simp
  show "(case run1 \<lparr>sw_now = now, remove_fault = f, removed = r\<rparr> of
          (e1, err) \<Rightarrow> if stop err then (e1, err) else run2 e1) =
        (\<lparr>sw_now = now, remove_fault = f,
           removed = r @ filter (\<lambda>q. f q = None)
             (removed (fst (case run1 (clean now) of
                              (e1, err) \<Rightarrow> if stop err then (e1, err) else run2 e1)))\<rparr>,
         snd (case run1 (clean now) of (e1, err) \<Rightarrow> if stop err then (e1, err) else run2 e1))"
    unfolding lhs rhs by simp
qed

lemma walk_names_Nil_fun: "walk_names fn p [] = (\<lambda>e. (e, None))"
  by (rule ext) simp

lemma walk_names_gone_fun:
  "walk_names fn p (Tree n None rd ds # cs) =
     (\<lambda>e. case fn (filepath_Join p n) None (Some ErrNotExist) e of
             (e1, err) \<Rightarrow>
               if err \<noteq> None \<and> err \<noteq> Some SkipDir then (e1, err) else walk_names fn p cs e1)"
  by (rule ext) simp

lemma walk_names_found_fun:
  "walk_names fn p (Tree n (Some fi) rd ds # cs) =
     (\<lambda>e. case walk fn (filepath_Join p n) fi (Tree n (Some fi) rd ds) e of
             (e1, err) \<Rightarrow>
               if err \<noteq> None \<and> (\<not> IsDir fi \<or> err \<noteq> Some SkipDir) then (e1, err)
               else walk_names fn p cs e1)"
  by (rule ext) simp

lemma walk_file_fun: "\<not> IsDir info \<Longrightarrow> walk fn p info (Tree n li rd cs) = fn p (Some info) None"
  by (rule ext) simp

lemma walk_dir_fun:
  "IsDir info \<Longrightarrow>
   walk fn p info (Tree n li rd cs) =
     (\<lambda>e. case fn p (Some info) rd e of
             (e1, err1) \<Rightarrow> if rd \<noteq> None \<or> err1 \<noteq> None then (e1, err1) else walk_names fn p cs e1)"
  by (rule ext) simp

lemma framed_walk_names:
  assumes "\<And>c p fi. c \<in> set cs \<Longrightarrow> framed (walk (deleteOldLog_fn w) p fi c)"
  shows "framed (walk_names (deleteOldLog_fn w) p cs)"
  using assms
proof (induction cs)
  case Nil
  show ?case by (simp only: walk_names_Nil_fun framed_return)
next
  case (Cons c cs)
  have rest: "framed (walk_names (deleteOldLog_fn w) p cs)"
    by (rule Cons.IH) (simp add: Cons.prems)
  obtain n li rd ds where c: "c = Tree n li rd ds" by (cases c)
  show ?case
  proof (cases li)
    case None
    show ?thesis
      unfolding c None walk_names_gone_fun
      by (rule framed_seq [OF framed_fn rest])
  next
    case (Some fi)
    have "framed (walk (deleteOldLog_fn w) (filepath_Join p n) fi c)"
      by (rule Cons.prems) simp
    then show ?thesis
      unfolding c Some walk_names_found_fun
      by (rule framed_seq [OF _ rest])
  qed
qed

lemma framed_walk: "framed (walk (deleteOldLog_fn w) p fi t)"
proof (induction t arbitrary: p fi)
  case (Tree n li rd cs)
  have names: "framed (walk_names (deleteOldLog_fn w) p cs)"
    by (rule framed_walk_names) (rule Tree.IH)
  show ?case
  proof (cases "IsDir fi")
    case False
    show ?thesis
      unfolding walk_file_fun [OF False] by (rule framed_fn)
  next
    case True
    show ?thesis
      unfolding walk_dir_fun [OF True]
      by (rule framed_seq [OF framed_fn names])
  qed
qed

lemma framed_Walk: "framed (filepath_Walk dir (deleteOldLog_fn w))"
proof -
  obtain n li rd cs where dir: "dir = Tree n li rd cs" by (cases dir)
  have inner: "framed (\<lambda>e. case li of None \<Rightarrow> deleteOldLog_fn w n None (Some ErrNotExist) e
                              | Some info \<Rightarrow> walk (deleteOldLog_fn w) n info dir e)"
    by (cases li) (simp_all add: framed_fn framed_walk)
  have eq: "filepath_Walk dir (deleteOldLog_fn w) =
      (\<lambda>e. case (case li of None \<Rightarrow> deleteOldLog_fn w n None (Some ErrNotExist) e
                              | Some info \<Rightarrow> walk (deleteOldLog_fn w) n info dir e) of
              (e1, err) \<Rightarrow> if err = Some SkipDir then (e1, None) else (e1, err))"
    unfolding dir by (rule ext) (simp add: filepath_Walk_def)
  have shape: "(case r of (e1, err) \<Rightarrow> if err = Some SkipDir then (e1, None) else (e1, err)) =
      (fst r, if snd r = Some SkipDir then None else snd r)" for r :: "sweep_world \<times> error option"
    by (cases r) simp
  show ?thesis
    unfolding eq shape
    using inner unfolding framed_def by simp
qed

declare walk.simps [simp del] walk_names.simps [simp del]

lemma fn_gone: "deleteOldLog_fn w p None err e = (e, Some (UnableToDelete p))"
  by (simp add: deleteOldLog_fn_def)

lemma fn_found:
  "deleteOldLog_fn w p (Some fi) err (clean now) =
     (\<lparr>sw_now = now, remove_fault = (\<lambda>p. None),
        removed = map fst (filter (expired w (cutoff w now)) [(p, fi)])\<rparr>, None)"
  by (simp add: deleteOldLog_fn_def expired_def cutoff_def clean_def os_Remove_def)

lemma fn_dir:
  "IsDir fi \<Longrightarrow> deleteOldLog_fn w p (Some fi) err e = (e, None)"
  by (simp add: deleteOldLog_fn_def)

lemma walk_names_gone:
  "walk_names (deleteOldLog_fn w) p (Tree n None rd ds # cs) e =
     (e, Some (UnableToDelete (filepath_Join p n)))"
  by (simp add: walk_names_gone_fun fn_gone)

lemma initial_part_stopped: "initial_part (clean now, Some (UnableToDelete q)) xs"
  by (simp add: initial_part_def clean_def)

lemma clean_run:
  assumes "framed run"
  shows "run (clean now) =
     (\<lparr>sw_now = now, remove_fault = (\<lambda>p. None), removed = removed (fst (run (clean now)))\<rparr>,
      snd (run (clean now)))"
  using framed_clean [OF assms, of now "[]"] by (simp add: clean_def)

lemma walk_names_found_clean:
  fixes w p n fi rd ds cs now
  defines "one \<equiv> walk (deleteOldLog_fn w) (filepath_Join p n) fi (Tree n (Some fi) rd ds) (clean now)"
    and "others \<equiv> walk_names (deleteOldLog_fn w) p cs (clean now)"
  assumes "snd one \<noteq> Some SkipDir"
  shows "walk_names (deleteOldLog_fn w) p (Tree n (Some fi) rd ds # cs) (clean now) =
     (if snd one \<noteq> None then one
      else (\<lparr>sw_now = now, remove_fault = (\<lambda>p. None),
              removed = removed (fst one) @ removed (fst others)\<rparr>, snd others))"
proof -
  define X where "X = removed (fst one)"
  define err where "err = snd one"
  have one: "one = (\<lparr>sw_now = now, remove_fault = (\<lambda>p. None), removed = X\<rparr>, err)"
    unfolding one_def X_def err_def by (rule clean_run [OF framed_walk])
  have next_run: "walk_names (deleteOldLog_fn w) p cs
        \<lparr>sw_now = now, remove_fault = (\<lambda>p. None), removed = X\<rparr> =
      (\<lparr>sw_now = now, remove_fault = (\<lambda>p. None), removed = X @ removed (fst others)\<rparr>, snd others)"
    unfolding others_def by (rule framed_clean [OF framed_walk_names [OF framed_walk]])
  have step: "walk_names (deleteOldLog_fn w) p (Tree n (Some fi) rd ds # cs) (clean now) =
      (case one of
         (e1, err) \<Rightarrow>
           if err \<noteq> None \<and> (\<not> IsDir fi \<or> err \<noteq> Some SkipDir) then (e1, err)
           else walk_names (deleteOldLog_fn w) p cs e1)"
    unfolding one_def walk_names_found_fun by (rule refl)
  have ns: "err \<noteq> Some SkipDir" using assms(3) by (simp add: err_def)
  have "walk_names (deleteOldLog_fn w) p (Tree n (Some fi) rd ds # cs) (clean now) =
     (if err \<noteq> None then (\<lparr>sw_now = now, remove_fault = (\<lambda>p. None), removed = X\<rparr>, err)
      else (\<lparr>sw_now = now, remove_fault = (\<lambda>p. None), removed = X @ removed (fst others)\<rparr>,
            snd others))"
    unfolding step one prod.case using ns next_run by simp
  also have "\<dots> = (if snd one \<noteq> None then one
      else (\<lparr>sw_now = now, remove_fault = (\<lambda>p. None),
              removed = removed (fst one) @ removed (fst others)\<rparr>, snd others))"
    unfolding X_def [symmetric] err_def [symmetric] using one by simp
  finally show ?thesis .
qed

lemma entries_list_Cons:
  "entries_list p (Tree n li rd ds # cs) =
     entries (filepath_Join p n) (Tree n li rd ds) @ entries_list p cs"
  by simp

lemma entries_file: "\<not> IsDir fi \<Longrightarrow> entries p (Tree n (Some fi) rd cs) = [(p, fi)]"
  by simp

lemma entries_dir:
  "IsDir fi \<Longrightarrow>
   entries p (Tree n (Some fi) rd cs) = (p, fi) # (if rd = None then entries_list p cs else [])"
  by simp

declare entries.simps [simp del] entries_list.simps [simp del]

lemma initial_part_found:
  assumes one: "initial_part (walk (deleteOldLog_fn w) (filepath_Join p n) fi (Tree n (Some fi) rd ds) (clean now)) xs1"
    and others: "initial_part (walk_names (deleteOldLog_fn w) p cs (clean now)) xs2"
  shows "initial_part (walk_names (deleteOldLog_fn w) p (Tree n (Some fi) rd ds # cs) (clean now))
           (xs1 @ xs2)"
proof -
  define a where "a = walk (deleteOldLog_fn w) (filepath_Join p n) fi (Tree n (Some fi) rd ds) (clean now)"
  define b where "b = walk_names (deleteOldLog_fn w) p cs (clean now)"
  from one have ia: "initial_part a xs1" by (simp only: a_def)
  from others have ib: "initial_part b xs2" by (simp only: b_def)
  from ia have ns: "snd a \<noteq> Some SkipDir" by (simp add: initial_part_def)
  from ia obtain rest1 where r1: "xs1 = removed (fst a) @ rest1" "snd a = None \<longrightarrow> rest1 = []"
    unfolding initial_part_def by (elim conjE exE)
  from ib have ns2: "snd b \<noteq> Some SkipDir" by (simp add: initial_part_def)
  from ib obtain rest2 where r2: "xs2 = removed (fst b) @ rest2" "snd b = None \<longrightarrow> rest2 = []"
    unfolding initial_part_def by (elim conjE exE)
  have run: "walk_names (deleteOldLog_fn w) p (Tree n (Some fi) rd ds # cs) (clean now) =
       (if snd a \<noteq> None then a
        else (\<lparr>sw_now = now, remove_fault = (\<lambda>p. None),
                removed = removed (fst a) @ removed (fst b)\<rparr>, snd b))"
    unfolding a_def b_def
    by (rule walk_names_found_clean) (rule ns [unfolded a_def])
  show ?thesis
  proof (cases "snd a = None")
    case True
    with r1 have "xs1 = removed (fst a)" by simp
    with r2 have "xs1 @ xs2 = (removed (fst a) @ removed (fst b)) @ rest2" by simp
    with True ns2 r2(2) show ?thesis
      unfolding run initial_part_def by simp
  next
    case False
    from r1 have "xs1 @ xs2 = removed (fst a) @ (rest1 @ xs2)" by simp
    with False ns show ?thesis
      unfolding run initial_part_def by auto
  qed
qed

lemma initial_part_names:
  assumes "\<forall>c\<in>set cs. \<forall>p n fi rd ds. c = Tree n (Some fi) rd ds \<longrightarrow>
      initial_part (walk (deleteOldLog_fn w) p fi c (clean now))
        (map fst (filter E (entries p c)))"
  shows "initial_part (walk_names (deleteOldLog_fn w) p cs (clean now))
        (map fst (filter E (entries_list p cs)))"
  using assms
proof (induction cs)
  case Nil
  show ?case by (simp add: walk_names_Nil_fun initial_part_def clean_def entries_list.simps)
next
  case (Cons c cs)
  from Cons.prems have rest: "\<forall>c\<in>set cs. \<forall>p n fi rd ds. c = Tree n (Some fi) rd ds \<longrightarrow>
      initial_part (walk (deleteOldLog_fn w) p fi c (clean now))
        (map fst (filter E (entries p c)))"
    by simp
  have ih: "initial_part (walk_names (deleteOldLog_fn w) p cs (clean now))
        (map fst (filter E (entries_list p cs)))"
    by (rule Cons.IH [OF rest])
  obtain n li rd ds where c: "c = Tree n li rd ds" by (cases c)
  show ?case
  proof (cases li)
    case None
    show ?thesis
      unfolding c None walk_names_gone by (rule initial_part_stopped)
  next
    case (Some fi)
    from Cons.prems have "initial_part
        (walk (deleteOldLog_fn w) (filepath_Join p n) fi (Tree n (Some fi) rd ds) (clean now))
        (map fst (filter E (entries (filepath_Join p n) (Tree n (Some fi) rd ds))))"
      unfolding c Some by simp
    from initial_part_found [OF this ih] show ?thesis
      unfolding c Some by (simp only: entries_list_Cons filter_append map_append)
  qed
qed

lemma initial_part_walk:
  "\<forall>p n fi rd cs. t = Tree n (Some fi) rd cs \<longrightarrow>
     initial_part (walk (deleteOldLog_fn w) p fi t (clean now))
       (map fst (filter (expired w (cutoff w now)) (entries p t)))"
proof (induction t)
  case (Tree m li sd cs)
  show ?case
  proof (intro allI impI)
    fix p n fi rd ds
    assume eq: "Tree m li sd cs = Tree n (Some fi) rd ds"
    let ?E = "expired w (cutoff w now)"
    show "initial_part (walk (deleteOldLog_fn w) p fi (Tree m li sd cs) (clean now))
       (map fst (filter ?E (entries p (Tree m li sd cs))))"
    proof (cases "IsDir fi")
      case False
      then show ?thesis
        unfolding eq by (simp add: walk_file_fun fn_found initial_part_def entries_file)
    next
      case True
      have notexp: "\<not> ?E (p, fi)" using True by (simp add: expired_def)
      show ?thesis
      proof (cases rd)
        case (Some e)
        with True notexp show ?thesis
          unfolding eq by (simp add: walk_dir_fun fn_dir initial_part_def clean_def entries_dir)
      next
        case None
        have "\<forall>c\<in>set cs. \<forall>p n fi rd ds. c = Tree n (Some fi) rd ds \<longrightarrow>
            initial_part (walk (deleteOldLog_fn w) p fi c (clean now))
              (map fst (filter ?E (entries p c)))"
          by (intro ballI) (rule Tree.IH)
        then have "initial_part (walk_names (deleteOldLog_fn w) p cs (clean now))
            (map fst (filter ?E (entries_list p cs)))"
          by (rule initial_part_names)
        moreover from eq have "cs = ds" by simp
        ultimately show ?thesis
          unfolding eq using True None notexp
          by (simp add: walk_dir_fun fn_dir entries_dir)
      qed
    qed
  qed
qed

lemma walk_names_intact:
  assumes "list_all intact cs"
    and "\<forall>c\<in>set cs. intact c \<longrightarrow> (\<forall>p n fi rd ds. c = Tree n (Some fi) rd ds \<longrightarrow>
            snd (walk (deleteOldLog_fn w) p fi c (clean now)) = None)"
  shows "snd (walk_names (deleteOldLog_fn w) p cs (clean now)) = None"
  using assms
proof (induction cs)
  case Nil
  show ?case by (simp add: walk_names_Nil_fun)
next
  case (Cons c cs)
  note each = Cons.prems(2) [rule_format]
  from Cons.prems(1) have tl: "list_all intact cs" and hd: "intact c" by simp_all
  have tl': "\<forall>c\<in>set cs. intact c \<longrightarrow> (\<forall>p n fi rd ds. c = Tree n (Some fi) rd ds \<longrightarrow>
            snd (walk (deleteOldLog_fn w) p fi c (clean now)) = None)"
  proof (intro ballI impI allI)
    fix c' q m gi sd es
    assume mem: "c' \<in> set cs" and ok: "intact c'" and eq: "c' = Tree m (Some gi) sd es"
    from mem have "c' \<in> set (c # cs)" by simp
    from each [OF this ok eq]
    show "snd (walk (deleteOldLog_fn w) q gi c' (clean now)) = None" .
  qed
  have ih: "snd (walk_names (deleteOldLog_fn w) p cs (clean now)) = None"
    by (rule Cons.IH [OF tl tl'])
  obtain n li rd ds where c: "c = Tree n li rd ds" by (cases c)
  from hd obtain fi where li: "li = Some fi" by (auto simp: c)
  have c': "c = Tree n (Some fi) rd ds" by (simp add: c li)
  have "c \<in> set (c # cs)" by simp
  from each [OF this hd c']
  have one: "snd (walk (deleteOldLog_fn w) (filepath_Join p n) fi (Tree n (Some fi) rd ds) (clean now)) = None"
    unfolding c' .
  then have "snd (walk (deleteOldLog_fn w) (filepath_Join p n) fi (Tree n (Some fi) rd ds) (clean now)) \<noteq> Some SkipDir"
    by simp
  from walk_names_found_clean [OF this] one ih show ?case
    unfolding c' by simp
qed

lemma walk_intact:
  "intact t \<longrightarrow> (\<forall>p n fi rd cs. t = Tree n (Some fi) rd cs \<longrightarrow>
     snd (walk (deleteOldLog_fn w) p fi t (clean now)) = None)"
proof (induction t)
  case (Tree m li sd cs)
  show ?case
  proof (intro allI impI)
    fix p n fi rd ds
    assume ok: "intact (Tree m li sd cs)" and eq: "Tree m li sd cs = Tree n (Some fi) rd ds"
    show "snd (walk (deleteOldLog_fn w) p fi (Tree m li sd cs) (clean now)) = None"
    proof (cases "IsDir fi")
      case False
      then show ?thesis by (simp add: walk_file_fun fn_found)
    next
      case True
      from ok have all: "list_all intact cs" by simp
      have "\<forall>c\<in>set cs. intact c \<longrightarrow> (\<forall>p n fi rd ds. c = Tree n (Some fi) rd ds \<longrightarrow>
            snd (walk (deleteOldLog_fn w) p fi c (clean now)) = None)"
        by (intro ballI) (rule Tree.IH)
      with all have "snd (walk_names (deleteOldLog_fn w) p cs (clean now)) = None"
        by (rule walk_names_intact)
      with True show ?thesis
        by (cases sd) (simp_all add: walk_dir_fun fn_dir)
    qed
  qed
qed

lemma cutoff_in_range:
  assumes "0 \<le> now" "now < 2 ^ 63" "0 \<le> MaxDays w" "86400 * MaxDays w < 2 ^ 63"
  shows "cutoff w now = now - 86400 * MaxDays w"
proof -
  have a: "int64 (86400 * MaxDays w) = 86400 * MaxDays w"
    using assms int64_id [of "86400 * MaxDays w"] by (simp add: is_int64_def)
  have "is_int64 (now - 86400 * MaxDays w)"
    using assms by (simp add: is_int64_def)
  then show ?thesis by (simp add: cutoff_def a int64_id)
qed

lemma sweep_world_eq: "(e :: sweep_world) = \<lparr>sw_now = sw_now e, remove_fault = remove_fault e, removed = removed e\<rparr>"
  by simp

lemma removed_clean: "removed (clean now) = []"
  by (simp add: clean_def)

lemma sweep_frame:
  "removed (deleteOldLog w dir \<lparr>sw_now = now, remove_fault = f, removed = r\<rparr>) =
     r @ filter (\<lambda>q. f q = None) (removed (deleteOldLog w dir (clean now)))"
  unfolding deleteOldLog_def by (simp add: framedD [OF framed_Walk])

lemma deleteOldLog_clean:
  "deleteOldLog w (Tree n li rd cs) (clean now) =
     (case li of None \<Rightarrow> clean now
      | Some info \<Rightarrow> fst (walk (deleteOldLog_fn w) n info (Tree n li rd cs) (clean now)))"
  by (simp add: deleteOldLog_def filepath_Walk_def fn_gone split: option.splits prod.splits)

lemma sweep_initial_part:
  "\<exists>rest. map fst (filter (expired w (cutoff w now)) (all_entries dir)) =
     removed (deleteOldLog w dir (clean now)) @ rest"
proof -
  obtain n li rd cs where dir: "dir = Tree n li rd cs" by (cases dir)
  show ?thesis
  proof (cases li)
    case None
    then show ?thesis
      by (simp add: dir deleteOldLog_clean removed_clean all_entries_def entries.simps)
  next
    case (Some fi)
    from initial_part_walk [of "Tree n (Some fi) rd cs" w now]
    have "initial_part (walk (deleteOldLog_fn w) n fi (Tree n (Some fi) rd cs) (clean now))
       (map fst (filter (expired w (cutoff w now)) (entries n (Tree n (Some fi) rd cs))))"
      by blast
    then show ?thesis
      unfolding initial_part_def by (auto simp: dir Some deleteOldLog_clean all_entries_def)
  qed
qed

lemma sweep_intact:
  assumes "intact dir"
  shows "removed (deleteOldLog w dir (clean now)) =
     map fst (filter (expired w (cutoff w now)) (all_entries dir))"
proof -
  obtain n li rd cs where dir: "dir = Tree n li rd cs" by (cases dir)
  with assms obtain fi where li: "li = Some fi" by auto
  let ?t = "Tree n (Some fi) rd cs"
  from initial_part_walk [of ?t w now]
  have part: "initial_part (walk (deleteOldLog_fn w) n fi ?t (clean now))
       (map fst (filter (expired w (cutoff w now)) (entries n ?t)))"
    by blast
  from walk_intact [of ?t w now] assms
  have "snd (walk (deleteOldLog_fn w) n fi ?t (clean now)) = None"
    unfolding dir li by blast
  with part show ?thesis
    unfolding initial_part_def by (auto simp: dir li deleteOldLog_clean all_entries_def)
qed

text \<open>
  Claim C7. With a retention of \<open>MaxDays\<close> days (not negative, and small enough for the
  product of seconds to fit the machine integer), whatever the sweep removes is an entry
  of the directory that is not a directory, whose base name starts with the base name of
  the live file and that was last modified before now minus \<open>86400 * MaxDays\<close> seconds;
  so a file whose name does not match is never removed, whatever its age. When no entry
  has gone during the walk and no removal fails, the sweep removes exactly those entries.
\<close>

theorem sweep_deletes_expired:
  assumes "0 \<le> sw_now e" and "sw_now e < 2 ^ 63" and "0 \<le> MaxDays w" and "86400 * MaxDays w < 2 ^ 63"
  shows "set (removed (deleteOldLog w dir e)) \<subseteq>
           set (removed e) \<union>
           fst ` {x \<in> set (all_entries dir). expired w (sw_now e - 86400 * MaxDays w) x} \<and>
         (intact dir \<and> remove_fault e = (\<lambda>p. None) \<longrightarrow>
            removed (deleteOldLog w dir e) =
              removed e @ map fst (filter (expired w (sw_now e - 86400 * MaxDays w)) (all_entries dir)))"
proof -
  let ?E = "expired w (sw_now e - 86400 * MaxDays w)"
  have cut: "cutoff w (sw_now e) = sw_now e - 86400 * MaxDays w"
    by (rule cutoff_in_range [OF assms])
  have fr: "removed (deleteOldLog w dir e) =
      removed e @ filter (\<lambda>q. remove_fault e q = None) (removed (deleteOldLog w dir (clean (sw_now e))))"
    using sweep_frame [of w dir "sw_now e" "remove_fault e" "removed e"]
    unfolding sweep_world_eq [symmetric] .
  from sweep_initial_part [of w "sw_now e" dir] obtain rest where
    "map fst (filter ?E (all_entries dir)) = removed (deleteOldLog w dir (clean (sw_now e))) @ rest"
    unfolding cut by blast
  then have "set (removed (deleteOldLog w dir (clean (sw_now e)))) \<subseteq> set (map fst (filter ?E (all_entries dir)))"
    by (metis set_append sup_ge1)
  then have sub: "set (removed (deleteOldLog w dir e)) \<subseteq>
           set (removed e) \<union> fst ` {x \<in> set (all_entries dir). ?E x}"
    unfolding fr by auto
  have "removed (deleteOldLog w dir e) = removed e @ map fst (filter ?E (all_entries dir))"
    if "intact dir" "remove_fault e = (\<lambda>p. None)"
    unfolding fr using that by (simp add: sweep_intact cut)
  with sub show ?thesis by blast
qed

lemma log_dir_intact: "intact log_dir"
  by code_simp

lemma monthly_fields: "MaxDays monthly = 30" "FilePath monthly = ''app.log''"
  by (simp_all add: monthly_def NewDailyRotateHandler_def)

lemma sweep0_fields: "sw_now sweep0 = 1709640000" "remove_fault sweep0 = (\<lambda>p. None)" "removed sweep0 = []"
  by (simp_all add: sweep0_def)

lemma log_dir_expired_30:
  "map fst (filter (expired monthly 1707048000) (all_entries log_dir)) =
     [''app.log.2024-01-25.001'', ''old/app.log.2023-01-01.001'']"
  by code_simp

theorem sweep_deletes_expired_witness:
  "0 \<le> sw_now sweep0 \<and> sw_now sweep0 < 2 ^ 63 \<and> 0 \<le> MaxDays monthly \<and>
   86400 * MaxDays monthly < 2 ^ 63 \<and> intact log_dir \<and> remove_fault sweep0 = (\<lambda>p. None) \<and>
   removed (deleteOldLog monthly log_dir sweep0) =
     [''app.log.2024-01-25.001'', ''old/app.log.2023-01-01.001'']"
proof -
  have h: "0 \<le> sw_now sweep0" "sw_now sweep0 < 2 ^ 63" "0 \<le> MaxDays monthly"
    "86400 * MaxDays monthly < 2 ^ 63"
    by (simp_all add: sweep0_fields monthly_fields)
  from sweep_deletes_expired [OF h, of log_dir] log_dir_intact
  have "removed (deleteOldLog monthly log_dir sweep0) =
      removed sweep0 @
      map fst (filter (expired monthly (sw_now sweep0 - 86400 * MaxDays monthly)) (all_entries log_dir))"
    by (simp add: sweep0_fields)
  then have "removed (deleteOldLog monthly log_dir sweep0) =
     [''app.log.2024-01-25.001'', ''old/app.log.2023-01-01.001'']"
    by (simp add: sweep0_fields monthly_fields log_dir_expired_30)
  with h log_dir_intact show ?thesis by (simp add: sweep0_fields)
qed

lemma DoRotate_launches:
  assumes live: "names s (FilePath w) = Some i"
    and ok: "DoRotate w s = Returns (w', s', None)"
  shows "sweeps s' = Suc (sweeps s)"
proof -
  obtain f b where ff: "find_free (FilePath w) s 1 [] True = (f, b)"
    by (cases "find_free (FilePath w) s 1 [] True")
  have "\<not> b"
  proof
    assume b
    with ff have "snd (find_free (FilePath w) s 1 [] True)" by simp
    from DoRotate_exhausted [OF live this] ok show False by simp
  qed
  with ff have found: "find_free (FilePath w) s 1 [] True = (f, False)" by simp
  from find_free_found [OF found] have "f \<noteq> FilePath w"
    by (auto simp: rotated_name_neq)
  from DoRotate_success [OF live found this ok] show ?thesis by simp
qed

text \<open>
  Claim C10. A handler made by \<^verbatim>\<open>NewSizeRotateHandler\<close> or \<^verbatim>\<open>NewLinesRotateHandler\<close>
  has \<open>MaxDays = 0\<close> and keeps it whatever calls it has returned from. A rotation of the
  existing live file that returns no error launches one sweep. That sweep, when no entry
  has gone and no removal fails, removes every entry that is not a directory, whose base
  name starts with the base name of the live file and that was last modified before the
  present second: the files rotated earlier, with no retention period.
\<close>

theorem unretained_modes_sweep_everything:
  assumes "w0 = NewSizeRotateHandler fp n \<or> w0 = NewLinesRotateHandler fp n"
    and "reach w0 w"
  shows "MaxDays w = 0 \<and>
     (\<forall>s w' s'. names s (FilePath w) \<noteq> None \<and> DoRotate w s = Returns (w', s', None) \<longrightarrow>
        sweeps s' = Suc (sweeps s) \<and> MaxDays w' = 0) \<and>
     (0 \<le> sw_now e \<and> sw_now e < 2 ^ 63 \<and> intact dir \<and> remove_fault e = (\<lambda>p. None) \<longrightarrow>
        removed (deleteOldLog w dir e) =
          removed e @
          map fst (filter (\<lambda>x. \<not> IsDir (snd x) \<and>
                                 strings_HasPrefix (filepath_Base (fst x)) (filepath_Base fp) \<and>
                                 ModTime (snd x) < sw_now e)
                     (all_entries dir)))"
proof -
  from assms(1) have "policy w0 = (fp, MaxLines w0, MaxSize w0, 0, True)"
    by (auto simp: policy_def NewSizeRotateHandler_def NewLinesRotateHandler_def)
  with reach_policy [OF assms(2)] have days: "MaxDays w = 0" and path: "FilePath w = fp"
    by (simp_all add: policy_def)
  have rot: "\<forall>s w' s'. names s (FilePath w) \<noteq> None \<and> DoRotate w s = Returns (w', s', None) \<longrightarrow>
        sweeps s' = Suc (sweeps s) \<and> MaxDays w' = 0"
  proof (intro allI impI)
    fix s w' s'
    assume a: "names s (FilePath w) \<noteq> None \<and> DoRotate w s = Returns (w', s', None)"
    then obtain i where "names s (FilePath w) = Some i" by auto
    from DoRotate_launches [OF this] a have "sweeps s' = Suc (sweeps s)" by simp
    moreover from a DoRotate_policy [of w s w' s' None] days have "MaxDays w' = 0"
      by (simp add: policy_def)
    ultimately show "sweeps s' = Suc (sweeps s) \<and> MaxDays w' = 0" by simp
  qed
  have sw: "removed (deleteOldLog w dir e) =
          removed e @
          map fst (filter (\<lambda>x. \<not> IsDir (snd x) \<and>
                                 strings_HasPrefix (filepath_Base (fst x)) (filepath_Base fp) \<and>
                                 ModTime (snd x) < sw_now e)
                     (all_entries dir))"
    if h: "0 \<le> sw_now e" "sw_now e < 2 ^ 63" "intact dir" "remove_fault e = (\<lambda>p. None)"
  proof -
    have cut: "cutoff w (sw_now e) = sw_now e"
      using cutoff_in_range [of "sw_now e" w] h days by simp
    have ex: "expired w (sw_now e) = (\<lambda>x. \<not> IsDir (snd x) \<and>
                                 strings_HasPrefix (filepath_Base (fst x)) (filepath_Base fp) \<and>
                                 ModTime (snd x) < sw_now e)"
      by (rule ext) (simp add: expired_def path)
    have "removed (deleteOldLog w dir e) =
      removed e @ filter (\<lambda>q. remove_fault e q = None) (removed (deleteOldLog w dir (clean (sw_now e))))"
      using sweep_frame [of w dir "sw_now e" "remove_fault e" "removed e"]
      unfolding sweep_world_eq [symmetric] .
    with h show ?thesis by (simp add: sweep_intact cut ex)
  qed
  from days rot sw show ?thesis by blast
qed

lemma log_dir_zero_days:
  "map fst (filter (\<lambda>x. \<not> IsDir (snd x) \<and>
                         strings_HasPrefix (filepath_Base (fst x)) (filepath_Base ''app.log'') \<and>
                         ModTime (snd x) < 1709640000)
             (all_entries log_dir)) =
     [''app.log'', ''app.log.2024-01-25.001'', ''app.log.2024-02-24.001'',
      ''app.log.2024-03-04.001'', ''old/app.log.2023-01-01.001'']"
  by code_simp

theorem unretained_modes_sweep_everything_witness:
  "reach (NewSizeRotateHandler ''app.log'' 100) small_handler \<and>
   MaxDays small_handler = 0 \<and>
   names next_day (FilePath small_handler) \<noteq> None \<and>
   (\<exists>w' s'. DoRotate small_handler next_day = Returns (w', s', None) \<and> sweeps s' = 1 \<and> MaxDays w' = 0) \<and>
   intact log_dir \<and>
   removed (deleteOldLog small_handler log_dir sweep0) =
     [''app.log'', ''app.log.2024-01-25.001'', ''app.log.2024-02-24.001'',
      ''app.log.2024-03-04.001'', ''old/app.log.2023-01-01.001'']"
proof -
  note t = unretained_modes_sweep_everything [OF disjI1 [OF refl] reach_small, of sweep0 log_dir]
  have live: "names next_day (FilePath small_handler) \<noteq> None"
    by (simp add: small_fields next_day_fields busy_names)
  obtain w' s' where run: "DoRotate small_handler next_day = Returns (w', s', None)"
    using DoRotate_next_day by blast
  from t live run have "sweeps s' = Suc (sweeps next_day) \<and> MaxDays w' = 0" by blast
  then have a: "sweeps s' = 1 \<and> MaxDays w' = 0" by (simp add: next_day_fields)
  from t log_dir_intact have "removed (deleteOldLog small_handler log_dir sweep0) =
      removed sweep0 @
      map fst (filter (\<lambda>x. \<not> IsDir (snd x) \<and>
                         strings_HasPrefix (filepath_Base (fst x)) (filepath_Base ''app.log'') \<and>
                         ModTime (snd x) < sw_now sweep0)
             (all_entries log_dir))"
    by (simp add: sweep0_fields)
  then have b: "removed (deleteOldLog small_handler log_dir sweep0) =
     [''app.log'', ''app.log.2024-01-25.001'', ''app.log.2024-02-24.001'',
      ''app.log.2024-03-04.001'', ''old/app.log.2023-01-01.001'']"
    by (simp add: sweep0_fields log_dir_zero_days)
  from t have "MaxDays small_handler = 0" by blast
  with reach_small live run a log_dir_intact b show ?thesis by blast
qed

text \<open>
  Claim C6 as it is stated does not hold: when the first entry of the directory has gone,
  the function given to the walk returns an error for it, the walk ends there, and the
  forty-day-old file after it stays; without the entry that has gone the same sweep removes
  that file.
\<close>

theorem sweep_stops_at_vanished_entry:
  "removed (deleteOldLog monthly gone_dir sweep0) = [] \<and>
   snd (filepath_Walk gone_dir (deleteOldLog_fn monthly) sweep0) =
     Some (UnableToDelete ''app.log.2024-01-20.001'') \<and>
   removed (deleteOldLog monthly left_dir sweep0) = [''app.log.2024-01-25.001'']"
  by code_simp

lemma walk_names_unreadable:
  "IsDir fi \<Longrightarrow>
   walk_names (deleteOldLog_fn w) p (Tree n (Some fi) (Some err) ds # cs) e =
     walk_names (deleteOldLog_fn w) p cs e"
  by (simp add: walk_names_found_fun walk_dir_fun fn_dir)

text \<open>
  Claim C6, as amended. A removal that fails leaves out its own path only: the sweep
  removes what the sweep without failures removes, less the paths whose removal failed. A
  directory that cannot be read is passed over and the walk goes on with the next entry.
  An entry whose \<^verbatim>\<open>Lstat\<close> failed ends the walk of its directory with an error (the
  recovered panic), whatever comes after it; the walk then returns that error, which
  \<^verbatim>\<open>deleteOldLog\<close> drops. In every case what has been removed is an initial part, in
  the order of the walk, of what was due.
\<close>

theorem sweep_failures:
  "removed (deleteOldLog w dir \<lparr>sw_now = now, remove_fault = f, removed = r\<rparr>) =
     r @ filter (\<lambda>q. f q = None) (removed (deleteOldLog w dir (clean now))) \<and>
   (IsDir fi \<longrightarrow>
      walk_names (deleteOldLog_fn w) p (Tree n (Some fi) (Some err) ds # cs) e =
        walk_names (deleteOldLog_fn w) p cs e) \<and>
   walk_names (deleteOldLog_fn w) p (Tree n None rd ds # cs) e =
     (e, Some (UnableToDelete (filepath_Join p n))) \<and>
   (\<exists>rest. map fst (filter (expired w (cutoff w now)) (all_entries dir)) =
      removed (deleteOldLog w dir (clean now)) @ rest)"
  using sweep_frame [of w dir now f r] walk_names_unreadable [of fi w p n err ds cs e]
    walk_names_gone [of w p n rd ds cs e] sweep_initial_part [of w now dir]
  by blast

lemma log_dir_clean_30:
  "removed (deleteOldLog monthly log_dir (clean 1709640000)) =
     [''app.log.2024-01-25.001'', ''old/app.log.2023-01-01.001'']"
  by code_simp

theorem sweep_failures_witness:
  "removed (deleteOldLog monthly log_dir
      \<lparr>sw_now = 1709640000,
         remove_fault = (\<lambda>q. if q = ''app.log.2024-01-25.001''
                             then Some (OsError ''permission denied'') else None),
         removed = []\<rparr>) = [''old/app.log.2023-01-01.001''] \<and>
   IsDir \<lparr>IsDir = True, ModTime = 1701000000\<rparr> \<and>
   walk_names (deleteOldLog_fn monthly) ''.''
     [Tree ''old'' (Some \<lparr>IsDir = True, ModTime = 1701000000\<rparr>) (Some (OsError ''permission denied''))
        [Tree ''app.log.2023-01-01.001'' (Some \<lparr>IsDir = False, ModTime = 1672531200\<rparr>) None []]]
     sweep0 = (sweep0, None) \<and>
   walk_names (deleteOldLog_fn monthly) ''.''
     [Tree ''app.log.2024-01-20.001'' None None [],
      Tree ''app.log.2024-01-25.001'' (Some \<lparr>IsDir = False, ModTime = 1706184000\<rparr>) None []]
     sweep0 = (sweep0, Some (UnableToDelete ''app.log.2024-01-20.001''))"
proof -
  note t = sweep_failures [of monthly log_dir 1709640000
      "\<lambda>q. if q = ''app.log.2024-01-25.001'' then Some (OsError ''permission denied'') else None" "[]"
      "\<lparr>IsDir = True, ModTime = 1701000000\<rparr>" "''.''" "''old''" "OsError ''permission denied''"
      "[Tree ''app.log.2023-01-01.001'' (Some \<lparr>IsDir = False, ModTime = 1672531200\<rparr>) None []]"
      "[]" sweep0]
  note u = sweep_failures [of monthly log_dir 1709640000 "\<lambda>q. None" "[]"
      "\<lparr>IsDir = True, ModTime = 1701000000\<rparr>" "''.''" "''app.log.2024-01-20.001''"
      "OsError ''permission denied''" "[]"
      "[Tree ''app.log.2024-01-25.001'' (Some \<lparr>IsDir = False, ModTime = 1706184000\<rparr>) None []]"
      sweep0 None]
  from t have a: "removed (deleteOldLog monthly log_dir
      \<lparr>sw_now = 1709640000,
         remove_fault = (\<lambda>q. if q = ''app.log.2024-01-25.001''
                             then Some (OsError ''permission denied'') else None),
         removed = []\<rparr>) = [''old/app.log.2023-01-01.001'']"
    by (simp add: log_dir_clean_30)
  from t have b: "walk_names (deleteOldLog_fn monthly) ''.''
     [Tree ''old'' (Some \<lparr>IsDir = True, ModTime = 1701000000\<rparr>) (Some (OsError ''permission denied''))
        [Tree ''app.log.2023-01-01.001'' (Some \<lparr>IsDir = False, ModTime = 1672531200\<rparr>) None []]]
     sweep0 = (sweep0, None)"
    by (simp add: walk_names_Nil_fun)
  from u have c: "walk_names (deleteOldLog_fn monthly) ''.''
     [Tree ''app.log.2024-01-20.001'' None None [],
      Tree ''app.log.2024-01-25.001'' (Some \<lparr>IsDir = False, ModTime = 1706184000\<rparr>) None []]
     sweep0 = (sweep0, Some (UnableToDelete ''app.log.2024-01-20.001''))"
    by (simp add: filepath_Join_def)
  from a b c show ?thesis by simp
qed

end
